theory Spec2Isabelle
  imports Complex_Main "HOL-Library.AList"
begin

section \<open>Python values, exceptions and the outside world\<close>

text \<open>
  The script \<^verbatim>\<open>jenkins_auto_build_enhanced.py\<close> drives a Jenkins server over HTTP. Its
  control flow depends on three things outside the program: the replies of the network,
  the readings of the wall clock, and the JSON documents the server sends. They are kept
  explicit here.

  JSON documents parsed by \<^verbatim>\<open>response.json()\<close> are Python objects; the code inspects them
  with truthiness tests (\<^verbatim>\<open>if executable:\<close>), \<^verbatim>\<open>.get\<close> and subscripts. \<open>pyval\<close> is the type of
  these objects. A dictionary is its list of items, looked up with \<open>map_of\<close>. JSON floats
  are left out.
\<close>

datatype pyval =
    PNone
  | PBool bool
  | PInt int
  | PStr string
  | PList "pyval list"
  | PDict "(string \<times> pyval) list"

datatype exn = RequestException | JSONDecodeError | AttributeError | KeyError | TypeError

text \<open>Python truthiness (\<^verbatim>\<open>bool(v)\<close>).\<close>

fun truthy :: "pyval \<Rightarrow> bool" where
  "truthy PNone = False"
| "truthy (PBool b) = b"
| "truthy (PInt n) = (n \<noteq> 0)"
| "truthy (PStr s) = (s \<noteq> [])"
| "truthy (PList xs) = (xs \<noteq> [])"
| "truthy (PDict kvs) = (kvs \<noteq> [])"

text \<open>\<^verbatim>\<open>v.get(k)\<close> and \<^verbatim>\<open>v.get(k, d)\<close>: only a dict has the method.\<close>

fun py_get_default :: "pyval \<Rightarrow> string \<Rightarrow> pyval \<Rightarrow> exn + pyval" where
  "py_get_default (PDict kvs) k d = Inr (case map_of kvs k of None \<Rightarrow> d | Some v \<Rightarrow> v)"
| "py_get_default _ k d = Inl AttributeError"

definition py_get :: "pyval \<Rightarrow> string \<Rightarrow> exn + pyval" where
  "py_get v k = py_get_default v k PNone"

text \<open>\<^verbatim>\<open>v[k]\<close> with a string key: a missing key raises, and so does any non-dict.\<close>

fun py_item :: "pyval \<Rightarrow> string \<Rightarrow> exn + pyval" where
  "py_item (PDict kvs) k = (case map_of kvs k of None \<Rightarrow> Inl KeyError | Some v \<Rightarrow> Inr v)"
| "py_item _ k = Inl TypeError"

text \<open>Lists and dicts cannot be dictionary keys.\<close>

fun hashable :: "pyval \<Rightarrow> bool" where
  "hashable (PList xs) = False"
| "hashable (PDict kvs) = False"
| "hashable _ = True"

text \<open>\<^verbatim>\<open>d.update(other)\<close> on dictionaries kept as item lists: an existing key keeps its
  place and takes the new value, a new key goes to the end.\<close>

definition py_update :: "(string \<times> string) list \<Rightarrow> (string \<times> string) list \<Rightarrow> (string \<times> string) list" where
  "py_update d other = fold (\<lambda>(k, v) acc. AList.update k v acc) other d"

text \<open>\<^verbatim>\<open>s.rstrip('/')\<close>.\<close>

definition rstrip_slash :: "string \<Rightarrow> string" where
  "rstrip_slash s = rev (dropWhile (\<lambda>c. c = CHR ''/'') (rev s))"

definition startswith :: "string \<Rightarrow> string \<Rightarrow> bool" where
  "startswith s p = (take (length p) s = p)"

text \<open>
  Every URL of the script is an f-string; a constructor stands for each template and
  carries the interpolated values, so that the build number (any Python object) needs no
  rendering as text.
\<close>

datatype url =
    JobBuildWithParameters string string   \<comment> \<open>\<^verbatim>\<open>{jenkins_url}/job/{job_name}/buildWithParameters\<close>\<close>
  | QueueItemApi string                    \<comment> \<open>\<^verbatim>\<open>{queue_url}api/json\<close>\<close>
  | JobBuildApi string string pyval        \<comment> \<open>\<^verbatim>\<open>{jenkins_url}/job/{job_name}/{build_number}/api/json\<close>\<close>
  | JobLastBuildApi string string          \<comment> \<open>\<^verbatim>\<open>{jenkins_url}/job/{job_name}/lastBuild/api/json\<close>\<close>

datatype request =
    SessionPost url "(string \<times> string) list" "(pyval \<times> pyval) list"
      \<comment> \<open>\<^verbatim>\<open>self.session.post(url, data=build_params, headers=headers)\<close>\<close>
  | SessionGet url
      \<comment> \<open>\<^verbatim>\<open>self.session.get(url)\<close>\<close>
  | RequestsGet string
      \<comment> \<open>\<^verbatim>\<open>requests.get(interface_url, timeout=10)\<close>\<close>

text \<open>What the code reads of a response: the status code, the \<^verbatim>\<open>Location\<close> header and the
  body as JSON (\<open>None\<close> when \<^verbatim>\<open>response.json()\<close> raises).\<close>

record response =
  status_code :: int
  location :: "string option"
  json :: "pyval option"

datatype reply = Raised exn | Answered response

text \<open>The effects of a run, oldest first: requests sent, sleeps, and clock readings.\<close>

datatype event = Req request | Sleep nat | Now rat

text \<open>
  The environment answers a request, and reads the clock, as a function of everything
  that happened before. Nothing else is assumed of it.
\<close>

record env =
  net :: "event list \<Rightarrow> request \<Rightarrow> reply"
  clock :: "event list \<Rightarrow> rat"

text \<open>
  What the workflow loop learns from its three calls, per job index. The entries of
  \<open>history\<close> are bookkeeping of the model (the source has no such field and nothing in the
  model reads it): they let the theorems speak of "the trigger of job k returned None".
\<close>

datatype step =
    Triggered nat pyval
  | Waited nat "exn + bool"
  | Polled nat "exn + bool"

text \<open>The mutable state: the effects so far, and the two tracking fields of the instance
  (\<^verbatim>\<open>self.current_job\<close>, \<^verbatim>\<open>self.current_build_number\<close>; Python's None is \<open>None\<close>, \<open>PNone\<close>).\<close>

record world =
  trace :: "event list"
  current_job :: "string option"
  current_build_number :: pyval
  history :: "step list"

definition session_post ::
  "env \<Rightarrow> url \<Rightarrow> (string \<times> string) list \<Rightarrow> (pyval \<times> pyval) list \<Rightarrow> world \<Rightarrow> (exn + response) \<times> world" where
  "session_post E u dat hs w =
     (case net E (trace w) (SessionPost u dat hs) of
        Raised e \<Rightarrow> Inl e
      | Answered r \<Rightarrow> Inr r,
      w\<lparr>trace := trace w @ [Req (SessionPost u dat hs)]\<rparr>)"

definition session_get :: "env \<Rightarrow> url \<Rightarrow> world \<Rightarrow> (exn + response) \<times> world" where
  "session_get E u w =
     (case net E (trace w) (SessionGet u) of
        Raised e \<Rightarrow> Inl e
      | Answered r \<Rightarrow> Inr r,
      w\<lparr>trace := trace w @ [Req (SessionGet u)]\<rparr>)"

definition requests_get :: "env \<Rightarrow> string \<Rightarrow> world \<Rightarrow> (exn + response) \<times> world" where
  "requests_get E u w =
     (case net E (trace w) (RequestsGet u) of
        Raised e \<Rightarrow> Inl e
      | Answered r \<Rightarrow> Inr r,
      w\<lparr>trace := trace w @ [Req (RequestsGet u)]\<rparr>)"

definition time_sleep :: "nat \<Rightarrow> world \<Rightarrow> world" where
  "time_sleep d w = w\<lparr>trace := trace w @ [Sleep d]\<rparr>"

definition time_time :: "env \<Rightarrow> world \<Rightarrow> rat \<times> world" where
  "time_time E w = (clock E (trace w), w\<lparr>trace := trace w @ [Now (clock E (trace w))]\<rparr>)"

definition response_json :: "response \<Rightarrow> exn + pyval" where
  "response_json r = (case json r of None \<Rightarrow> Inl JSONDecodeError | Some v \<Rightarrow> Inr v)"

section \<open>Configuration and job list\<close>

text \<open>
  The configuration file is a JSON object; \<open>config\<close> has the keys the modelled methods
  read, \<open>None\<close> for an absent key (the code supplies its default with \<^verbatim>\<open>.get\<close>). The nested
  objects \<^verbatim>\<open>build_config\<close> and \<^verbatim>\<open>polling_config\<close> are flattened: an absent object is the
  same as one without keys. Durations and counts are natural numbers of seconds and
  attempts.
\<close>

datatype job_entry =
    JobDict "string option" "string option" "(string \<times> string) list option"
      \<comment> \<open>a dict: its \<^verbatim>\<open>name\<close>, \<^verbatim>\<open>description\<close> and \<^verbatim>\<open>parameters\<close> keys\<close>
  | JobStr string
  | JobOther
      \<comment> \<open>any other JSON value\<close>

record config =
  jenkins_url :: string
  branch :: "string option"
  enable_polling :: "bool option"
  polling_url :: "string option"
  wait_between_builds :: "nat option"
  jobs :: "job_entry list option"
  first_job :: "string option"
  second_job :: "string option"
  timeout_seconds :: "nat option"
  check_interval_seconds :: "nat option"
  max_attempts :: "nat option"
  interval_seconds :: "nat option"
  expected_status_code :: "int option"

text \<open>\<^verbatim>\<open>load_config\<close> exits unless the required keys are there, and unless \<^verbatim>\<open>polling_url\<close> is
  when polling is enabled (lines 213-217); the first is the type of \<open>jenkins_url\<close>, the
  second is this predicate.\<close>

definition load_config_accepts :: "config \<Rightarrow> bool" where
  "load_config_accepts cfg = (enable_polling cfg = Some True \<longrightarrow> polling_url cfg \<noteq> None)"

text \<open>The instance: its configuration and the crumb fetched at start (\<open>PNone\<close> if none).\<close>

record self =
  config :: config
  crumb :: pyval

record job =
  name :: string
  description :: string
  parameters :: "(string \<times> string) list"

text \<open>The two fixed descriptions of the backward-compatible branch are Chinese text;
  they are given as their UTF-8 bytes.\<close>

definition first_description :: string where
  "first_description =
     [CHR 0xE7, CHR 0xAC, CHR 0xAC, CHR 0xE4, CHR 0xB8, CHR 0x80, CHR 0xE4, CHR 0xB8, CHR 0xAA,
      CHR 0xE4, CHR 0xBB, CHR 0xBB, CHR 0xE5, CHR 0x8A, CHR 0xA1]"

definition second_description :: string where
  "second_description =
     [CHR 0xE7, CHR 0xAC, CHR 0xAC, CHR 0xE4, CHR 0xBA, CHR 0x8C, CHR 0xE4, CHR 0xB8, CHR 0xAA,
      CHR 0xE4, CHR 0xBB, CHR 0xBB, CHR 0xE5, CHR 0x8A, CHR 0xA1]"

text \<open>One pass of the loop of lines 497-509: an entry yields one job or none.\<close>

fun job_of_entry :: "job_entry \<Rightarrow> job list" where
  "job_of_entry (JobDict (Some n) d p) =
     [\<lparr>name = n,
       description = (case d of None \<Rightarrow> n | Some x \<Rightarrow> x),
       parameters = (case p of None \<Rightarrow> [] | Some ps \<Rightarrow> ps)\<rparr>]"
| "job_of_entry (JobDict None d p) = []"
| "job_of_entry (JobStr s) = [\<lparr>name = s, description = s, parameters = []\<rparr>]"
| "job_of_entry JobOther = []"

definition get_jobs_list :: "config \<Rightarrow> job list" where
  "get_jobs_list cfg =
     (case jobs cfg of
        Some (e # es) \<Rightarrow> concat (map job_of_entry (e # es))
      | _ \<Rightarrow>
        (let first = (case first_job cfg of None \<Rightarrow> ''tdms-stock-boot'' | Some s \<Rightarrow> s);
             second = (case second_job cfg of
                         None \<Rightarrow> ''tdms-stock-boot-slave-rights-collection'' | Some s \<Rightarrow> s)
         in [\<lparr>name = first, description = first_description, parameters = []\<rparr>]
            @ (if second \<noteq> [] \<and> second \<noteq> first
               then [\<lparr>name = second, description = second_description, parameters = []\<rparr>]
               else [])))"

section \<open>Queue resolution and build trigger\<close>

text \<open>
  The body of the polling loop of \<^verbatim>\<open>get_build_number_from_queue\<close> (lines 319-340), after
  the GET: what the response decides. \<open>Return v\<close> is \<^verbatim>\<open>return v\<close>, \<open>Break\<close> is \<^verbatim>\<open>break\<close>,
  \<open>Continue\<close> is the path that sleeps and polls again; \<open>Inl\<close> is an exception raised
  inside the inner \<^verbatim>\<open>try\<close>.
\<close>

datatype queue_step = Return pyval | Break | Continue

definition queue_decide :: "response \<Rightarrow> exn + queue_step" where
  "queue_decide queue_response =
     (if status_code queue_response = 200 then
        (case response_json queue_response of
           Inl e \<Rightarrow> Inl e
         | Inr queue_data \<Rightarrow>
           (case py_get queue_data ''executable'' of
              Inl e \<Rightarrow> Inl e
            | Inr executable \<Rightarrow>
              (case (if truthy executable then py_get executable ''number'' else Inr PNone) of
                 Inl e \<Rightarrow> Inl e
               | Inr build_number \<Rightarrow>
                 if truthy executable \<and> truthy build_number then Inr (Return build_number)
                 else
                   (case py_get queue_data ''cancelled'' of
                      Inl e \<Rightarrow> Inl e
                    | Inr cancelled \<Rightarrow>
                      if truthy cancelled then Inr (Return PNone) else Inr Continue))))
      else Inr Break)"

text \<open>\<^verbatim>\<open>for attempt in range(30)\<close>, counted down. An exception and a \<^verbatim>\<open>break\<close> both leave
  the loop for the final \<^verbatim>\<open>return None\<close>; so does running out of attempts.\<close>

fun queue_loop :: "env \<Rightarrow> url \<Rightarrow> nat \<Rightarrow> world \<Rightarrow> pyval \<times> world" where
  "queue_loop E u 0 w = (PNone, w)"
| "queue_loop E u (Suc n) w =
     (case session_get E u w of
        (Inl e, w1) \<Rightarrow> (PNone, w1)
      | (Inr queue_response, w1) \<Rightarrow>
        (case queue_decide queue_response of
           Inl e \<Rightarrow> (PNone, w1)
         | Inr Break \<Rightarrow> (PNone, w1)
         | Inr (Return v) \<Rightarrow> (v, w1)
         | Inr Continue \<Rightarrow> queue_loop E u n (time_sleep 2 w1)))"

definition queue_url :: "string \<Rightarrow> string \<Rightarrow> string" where
  "queue_url base loc =
     (if \<not> startswith loc ''http'' then
        (if startswith loc ''/'' then base @ loc else base @ ''/'' @ loc)
      else loc)"

definition get_build_number_from_queue :: "env \<Rightarrow> self \<Rightarrow> response \<Rightarrow> string \<Rightarrow> world \<Rightarrow> pyval \<times> world" where
  "get_build_number_from_queue E S resp job_name w =
     (case location resp of
        None \<Rightarrow> (PNone, w)
      | Some loc \<Rightarrow>
        if loc = [] then (PNone, w)
        else queue_loop E
               (QueueItemApi (queue_url (rstrip_slash (jenkins_url (config S))) loc)) 30 w)"

text \<open>The header dictionary of lines 247-250: empty without a crumb, else one entry whose
  key and value are read from the crumb by subscript (the value first).\<close>

definition crumb_headers :: "pyval \<Rightarrow> exn + (pyval \<times> pyval) list" where
  "crumb_headers c =
     (if truthy c then
        (case py_item c ''crumb'' of
           Inl e \<Rightarrow> Inl e
         | Inr v \<Rightarrow>
           (case py_item c ''crumbRequestField'' of
              Inl e \<Rightarrow> Inl e
            | Inr k \<Rightarrow> if hashable k then Inr [(k, v)] else Inl TypeError))
      else Inr [])"

definition build_params :: "string \<Rightarrow> (string \<times> string) list option \<Rightarrow> (string \<times> string) list" where
  "build_params br ps =
     (case ps of
        None \<Rightarrow> [(''BRANCH'', br)]
      | Some other \<Rightarrow> if other \<noteq> [] then py_update [(''BRANCH'', br)] other else [(''BRANCH'', br)])"

text \<open>The \<^verbatim>\<open>try\<close> block of \<^verbatim>\<open>trigger_build\<close> (lines 241-284); \<open>Inl\<close> is an exception leaving it.
  Its first line is \<^verbatim>\<open>branch = branch or self.config.get('branch', 'master')\<close>.\<close>

definition branch_or_default :: "self \<Rightarrow> string option \<Rightarrow> string" where
  "branch_or_default S br =
     (case br of
        Some b \<Rightarrow> if b \<noteq> [] then b
                  else (case branch (config S) of None \<Rightarrow> ''master'' | Some c \<Rightarrow> c)
      | None \<Rightarrow> (case branch (config S) of None \<Rightarrow> ''master'' | Some c \<Rightarrow> c))"

definition trigger_build_body ::
  "env \<Rightarrow> self \<Rightarrow> string \<Rightarrow> string option \<Rightarrow> (string \<times> string) list option \<Rightarrow> world
     \<Rightarrow> (exn + pyval) \<times> world" where
  "trigger_build_body E S job_name br ps w =
     (let br' = branch_or_default S br;
          base = rstrip_slash (jenkins_url (config S))
      in case crumb_headers (crumb S) of
           Inl e \<Rightarrow> (Inl e, w)
         | Inr headers \<Rightarrow>
           (case session_post E (JobBuildWithParameters base job_name) (build_params br' ps) headers w of
              (Inl e, w1) \<Rightarrow> (Inl e, w1)
            | (Inr resp, w1) \<Rightarrow>
              if status_code resp = 200 \<or> status_code resp = 201 then
                (case get_build_number_from_queue E S resp job_name w1 of
                   (build_number, w2) \<Rightarrow>
                     if truthy build_number then (Inr build_number, w2)
                     else (Inr (PInt (- 1)), w2))
              else (Inr PNone, w1)))"

text \<open>\<^verbatim>\<open>except Exception\<close> (line 286): whatever the block raises becomes \<^verbatim>\<open>return None\<close>.\<close>

definition trigger_build ::
  "env \<Rightarrow> self \<Rightarrow> string \<Rightarrow> string option \<Rightarrow> (string \<times> string) list option \<Rightarrow> world
     \<Rightarrow> pyval \<times> world" where
  "trigger_build E S job_name br ps w =
     (case trigger_build_body E S job_name br ps w of
        (Inl e, w') \<Rightarrow> (PNone, w')
      | (Inr v, w') \<Rightarrow> (v, w'))"

section \<open>Build status and completion\<close>

text \<open>Python's \<^verbatim>\<open>v != -1\<close>: a bool compares as 0 or 1, any other non-integer is unequal.\<close>

fun differs_from_minus_one :: "pyval \<Rightarrow> bool" where
  "differs_from_minus_one (PInt n) = (n \<noteq> - 1)"
| "differs_from_minus_one _ = True"

definition status_url :: "self \<Rightarrow> string \<Rightarrow> pyval \<Rightarrow> url" where
  "status_url S job_name build_number =
     (let base = rstrip_slash (jenkins_url (config S))
      in if truthy build_number \<and> differs_from_minus_one build_number
         then JobBuildApi base job_name build_number
         else JobLastBuildApi base job_name)"

text \<open>What \<^verbatim>\<open>get_job_status\<close> returns for a reply: the parsed body of a 200, else None (also
  when the request or the parsing raises, line 380).\<close>

definition status_of_reply :: "reply \<Rightarrow> pyval" where
  "status_of_reply r =
     (case r of
        Raised e \<Rightarrow> PNone
      | Answered resp \<Rightarrow>
        if status_code resp = 200 then (case json resp of None \<Rightarrow> PNone | Some v \<Rightarrow> v)
        else PNone)"

definition get_job_status :: "env \<Rightarrow> self \<Rightarrow> string \<Rightarrow> pyval \<Rightarrow> world \<Rightarrow> pyval \<times> world" where
  "get_job_status E S job_name build_number w =
     (case session_get E (status_url S job_name build_number) w of
        (Inl e, w1) \<Rightarrow> (PNone, w1)
      | (Inr resp, w1) \<Rightarrow>
        if status_code resp = 200 then
          (case response_json resp of Inl e \<Rightarrow> (PNone, w1) | Inr v \<Rightarrow> (v, w1))
        else (PNone, w1))"

text \<open>
  Lines 406-427, for a truthy \<^verbatim>\<open>status\<close>: \<open>Some b\<close> is \<^verbatim>\<open>return b\<close>, \<open>None\<close> the branch that
  goes on polling. \<^verbatim>\<open>.get\<close> raises on a status that is no dict, and nothing in
  \<^verbatim>\<open>wait_for_build_completion\<close> catches it.
\<close>

definition completion_check :: "pyval \<Rightarrow> exn + bool option" where
  "completion_check status =
     (case py_get status ''result'' of
        Inl e \<Rightarrow> Inl e
      | Inr result \<Rightarrow>
        (case py_get_default status ''building'' (PBool False) of
           Inl e \<Rightarrow> Inl e
         | Inr building \<Rightarrow>
           (case py_get_default status ''number'' (PStr ''N/A'') of
              Inl e \<Rightarrow> Inl e
            | Inr actual_build_number \<Rightarrow>
              if \<not> truthy building \<and> truthy result then
                (if result = PStr ''SUCCESS'' then Inr (Some True) else Inr (Some False))
              else Inr None)))"

text \<open>
  One pass of \<^verbatim>\<open>while time.time() - start_time < timeout\<close> (lines 403-429), the test
  included. The first component is \<open>Some r\<close> when the function is left with \<open>r\<close> (a returned
  bool or a raised exception) and \<open>None\<close> when the loop goes round again. The clock is read
  for the test, and once more for \<^verbatim>\<open>elapsed\<close> on the polling branch.
\<close>

definition wait_iteration ::
  "env \<Rightarrow> self \<Rightarrow> string \<Rightarrow> pyval \<Rightarrow> nat \<Rightarrow> nat \<Rightarrow> rat \<Rightarrow> world
     \<Rightarrow> (exn + bool) option \<times> world" where
  "wait_iteration E S job_name build_number timeout check_interval start_time w =
     (case time_time E w of
        (t, w1) \<Rightarrow>
          if t - start_time < of_nat timeout then
            (case get_job_status E S job_name build_number w1 of
               (status, w2) \<Rightarrow>
                 if truthy status then
                   (case completion_check status of
                      Inl e \<Rightarrow> (Some (Inl e), w2)
                    | Inr (Some b) \<Rightarrow> (Some (Inr b), w2)
                    | Inr None \<Rightarrow> (None, time_sleep check_interval (snd (time_time E w2))))
                 else (None, time_sleep check_interval w2))
          else (Some (Inr False), w1))"

text \<open>The loop itself. It ends only when the clock passes the deadline or a pass returns,
  so it is a partial function: \<open>None\<close> is a run that never returns.\<close>

partial_function (option) wait_loop ::
  "env \<Rightarrow> self \<Rightarrow> string \<Rightarrow> pyval \<Rightarrow> nat \<Rightarrow> nat \<Rightarrow> rat \<Rightarrow> world
     \<Rightarrow> ((exn + bool) \<times> world) option" where
  "wait_loop E S job_name build_number timeout check_interval start_time w =
     (if fst (wait_iteration E S job_name build_number timeout check_interval start_time w) = None
      then wait_loop E S job_name build_number timeout check_interval start_time
             (snd (wait_iteration E S job_name build_number timeout check_interval start_time w))
      else Some (the (fst (wait_iteration E S job_name build_number timeout check_interval start_time w)),
                 snd (wait_iteration E S job_name build_number timeout check_interval start_time w)))"

definition wait_for_build_completion ::
  "env \<Rightarrow> self \<Rightarrow> string \<Rightarrow> pyval \<Rightarrow> world \<Rightarrow> ((exn + bool) \<times> world) option" where
  "wait_for_build_completion E S job_name build_number w =
     (let timeout = (case timeout_seconds (config S) of None \<Rightarrow> 1800 | Some n \<Rightarrow> n);
          check_interval = (case check_interval_seconds (config S) of None \<Rightarrow> 30 | Some n \<Rightarrow> n)
      in case time_time E w of
           (start_time, w0) \<Rightarrow>
             wait_loop E S job_name build_number timeout check_interval start_time w0)"

section \<open>External endpoint poller\<close>

text \<open>
  \<^verbatim>\<open>for attempt in range(1, max_attempts + 1)\<close> (lines 454-481). A response with another
  status and an exception of the GET both fall through to the sleep, which is skipped
  after the last attempt. On a match the body is only logged before \<^verbatim>\<open>return True\<close>.
\<close>

function poll_loop :: "env \<Rightarrow> string \<Rightarrow> nat \<Rightarrow> nat \<Rightarrow> int \<Rightarrow> nat \<Rightarrow> world \<Rightarrow> bool \<times> world" where
  "poll_loop E interface_url n_attempts interval expected_status attempt w =
     (if attempt < n_attempts + 1 then
        (case requests_get E interface_url w of
           (r, w1) \<Rightarrow>
             if (case r of Inl e \<Rightarrow> False | Inr resp \<Rightarrow> status_code resp = expected_status)
             then (True, w1)
             else poll_loop E interface_url n_attempts interval expected_status (Suc attempt)
                    (if attempt < n_attempts then time_sleep interval w1 else w1))
      else (False, w))"
  by pat_completeness auto
termination
  by (relation "measure (\<lambda>(E, u, m, i, x, a, w). Suc m - a)") auto

declare poll_loop.simps [simp del]

text \<open>\<^verbatim>\<open>interface_url or self.config['polling_url']\<close> raises KeyError when the key is needed
  and absent; the call is outside every \<^verbatim>\<open>try\<close>.\<close>

definition poll_interface :: "env \<Rightarrow> self \<Rightarrow> string option \<Rightarrow> world \<Rightarrow> (exn + bool) \<times> world" where
  "poll_interface E S interface_url w =
     (case (case interface_url of
              Some u \<Rightarrow> if u \<noteq> [] then Some u else polling_url (config S)
            | None \<Rightarrow> polling_url (config S)) of
        None \<Rightarrow> (Inl KeyError, w)
      | Some u \<Rightarrow>
        (let max_attempts = (case max_attempts (config S) of None \<Rightarrow> 60 | Some n \<Rightarrow> n);
             interval = (case interval_seconds (config S) of None \<Rightarrow> 30 | Some n \<Rightarrow> n);
             expected_status = (case expected_status_code (config S) of None \<Rightarrow> 200 | Some c \<Rightarrow> c)
         in case poll_loop E u max_attempts interval expected_status 1 w of
              (b, w') \<Rightarrow> (Inr b, w')))"

section \<open>Workflow orchestrator\<close>

text \<open>The countdown of lines 608-616: \<^verbatim>\<open>wait_time\<close> sleeps of one second.\<close>

definition countdown :: "nat \<Rightarrow> world \<Rightarrow> world" where
  "countdown wait_time w = w\<lparr>trace := trace w @ replicate wait_time (Sleep 1)\<rparr>"

definition remember :: "step \<Rightarrow> world \<Rightarrow> world" where
  "remember s w = w\<lparr>history := history w @ [s]\<rparr>"

text \<open>
  The body of \<^verbatim>\<open>for i, job in enumerate(jobs)\<close> (lines 567-616). \<open>Done r\<close> leaves
  \<^verbatim>\<open>run_build_workflow\<close> with \<open>r\<close>: \<open>Inr False\<close> for a \<^verbatim>\<open>return False\<close>, \<open>Inl e\<close> for an
  exception that nothing catches. \<open>Next\<close> goes on to the following job.
\<close>

datatype flow = Done "exn + bool" | Next

definition workflow_step ::
  "env \<Rightarrow> self \<Rightarrow> job list \<Rightarrow> string \<Rightarrow> bool \<Rightarrow> nat \<Rightarrow> nat \<Rightarrow> job \<Rightarrow> world \<Rightarrow> (flow \<times> world) option" where
  "workflow_step E S js br polling wait_time i j w =
     (case trigger_build E S (name j) (Some br)
             (if parameters j \<noteq> [] then Some (parameters j) else None) w of
        (build_number, w1) \<Rightarrow>
          if build_number = PNone then Some (Done (Inr False), remember (Triggered i build_number) w1)
          else
            (case wait_for_build_completion E S (name j) build_number
                    ((remember (Triggered i build_number) w1)
                       \<lparr>current_job := Some (name j), current_build_number := build_number\<rparr>) of
               None \<Rightarrow> None
             | Some (Inl e, w2) \<Rightarrow> Some (Done (Inl e), remember (Waited i (Inl e)) w2)
             | Some (Inr ok, w2) \<Rightarrow>
               if \<not> ok then Some (Done (Inr False), remember (Waited i (Inr ok)) w2)
               else
                 (let w3 = (remember (Waited i (Inr ok)) w2)
                             \<lparr>current_job := None, current_build_number := PNone\<rparr>
                  in if int i < int (length js) - 1 then
                       (if i = 0 \<and> polling then
                          (case poll_interface E S None w3 of
                             (Inl e, w4) \<Rightarrow> Some (Done (Inl e), remember (Polled i (Inl e)) w4)
                           | (Inr ok', w4) \<Rightarrow>
                             if \<not> ok' then Some (Done (Inr False), remember (Polled i (Inr ok')) w4)
                             else Some (Next, countdown wait_time (remember (Polled i (Inr ok')) w4)))
                        else Some (Next, countdown wait_time w3))
                     else Some (Next, w3))))"

fun workflow_loop ::
  "env \<Rightarrow> self \<Rightarrow> job list \<Rightarrow> string \<Rightarrow> bool \<Rightarrow> nat \<Rightarrow> nat \<Rightarrow> job list \<Rightarrow> world
     \<Rightarrow> ((exn + bool) \<times> world) option" where
  "workflow_loop E S js br polling wait_time i [] w = Some (Inr True, w)"
| "workflow_loop E S js br polling wait_time i (j # rest) w =
     (case workflow_step E S js br polling wait_time i j w of
        None \<Rightarrow> None
      | Some (Done r, w') \<Rightarrow> Some (r, w')
      | Some (Next, w') \<Rightarrow> workflow_loop E S js br polling wait_time (Suc i) rest w')"

definition run_build_workflow :: "env \<Rightarrow> self \<Rightarrow> world \<Rightarrow> ((exn + bool) \<times> world) option" where
  "run_build_workflow E S w =
     (let br = (case branch (config S) of None \<Rightarrow> ''master'' | Some b \<Rightarrow> b);
          polling = (case enable_polling (config S) of None \<Rightarrow> False | Some b \<Rightarrow> b);
          wait_time = (case wait_between_builds (config S) of None \<Rightarrow> 30 | Some n \<Rightarrow> n);
          js = get_jobs_list (config S)
      in if js = [] then Some (Inr False, w)
         else workflow_loop E S js br polling wait_time 0 js w)"

section \<open>Reading a run\<close>

text \<open>
  The definitions of this section are not methods of the script. They say what a stretch
  of the trace, or a reply of the server, amounts to, in the words the properties below
  use.
\<close>

fun is_request :: "event \<Rightarrow> bool" where
  "is_request (Req r) = True"
| "is_request _ = False"

text \<open>\<open>k\<close> rounds of the queue loop that poll and sleep two seconds.\<close>

definition queue_events :: "url \<Rightarrow> nat \<Rightarrow> event list" where
  "queue_events u k = concat (replicate k [Req (SessionGet u), Sleep 2])"

text \<open>What the queue loop makes of the reply it gets after the history \<open>tr\<close>.\<close>

definition queue_outcome :: "env \<Rightarrow> event list \<Rightarrow> url \<Rightarrow> exn + queue_step" where
  "queue_outcome E tr u =
     (case net E tr (SessionGet u) of Raised e \<Rightarrow> Inl e | Answered r \<Rightarrow> queue_decide r)"

fun queue_value :: "exn + queue_step \<Rightarrow> pyval" where
  "queue_value (Inr (Return v)) = v"
| "queue_value _ = PNone"

text \<open>The \<^verbatim>\<open>number\<close> field of the \<^verbatim>\<open>executable\<close> object of a 200 response, if the response
  has one.\<close>

definition executable_number :: "reply \<Rightarrow> pyval option" where
  "executable_number rp =
     (case rp of
        Raised e \<Rightarrow> None
      | Answered r \<Rightarrow>
        if status_code r = 200 then
          (case json r of
             Some (PDict d) \<Rightarrow>
               (case map_of d ''executable'' of Some (PDict ex) \<Rightarrow> map_of ex ''number'' | _ \<Rightarrow> None)
           | _ \<Rightarrow> None)
        else None)"

text \<open>A 200 response that carries a JSON object without an executable build number and
  without cancellation: \<^verbatim>\<open>executable\<close> is absent or falsy, or it is an object whose \<^verbatim>\<open>number\<close>
  is absent or falsy; \<^verbatim>\<open>cancelled\<close> is absent or falsy.\<close>

fun lacks_number :: "pyval option \<Rightarrow> bool" where
  "lacks_number None = True"
| "lacks_number (Some (PDict ex)) = (case map_of ex ''number'' of None \<Rightarrow> True | Some v \<Rightarrow> \<not> truthy v)"
| "lacks_number (Some v) = (\<not> truthy v)"

definition still_queued :: "reply \<Rightarrow> bool" where
  "still_queued rp =
     (case rp of
        Raised e \<Rightarrow> False
      | Answered r \<Rightarrow>
        status_code r = 200 \<and>
        (case json r of
           Some (PDict d) \<Rightarrow>
             lacks_number (map_of d ''executable'') \<and>
             (case map_of d ''cancelled'' of None \<Rightarrow> True | Some c \<Rightarrow> \<not> truthy c)
         | _ \<Rightarrow> False))"

text \<open>\<open>k\<close> failed attempts of the endpoint poller, each followed by its sleep; and whether
  the attempt made after the history \<open>tr\<close> gets the expected status.\<close>

definition poll_events :: "string \<Rightarrow> nat \<Rightarrow> nat \<Rightarrow> event list" where
  "poll_events u interval k = concat (replicate k [Req (RequestsGet u), Sleep interval])"

definition status_matches :: "env \<Rightarrow> event list \<Rightarrow> string \<Rightarrow> int \<Rightarrow> bool" where
  "status_matches E tr u expected =
     (case net E tr (RequestsGet u) of Raised e \<Rightarrow> False | Answered r \<Rightarrow> status_code r = expected)"

text \<open>The POST that \<^verbatim>\<open>trigger_build\<close> sends, given the headers made from the crumb, and the
  queue-item URL that queue resolution makes of the response to it.\<close>

definition trigger_post :: "self \<Rightarrow> string \<Rightarrow> string option \<Rightarrow> (string \<times> string) list option \<Rightarrow> (pyval \<times> pyval) list \<Rightarrow> request" where
  "trigger_post S job_name br ps hs =
     SessionPost (JobBuildWithParameters (rstrip_slash (jenkins_url (config S))) job_name)
       (build_params (branch_or_default S br) ps) hs"

definition location_url :: "self \<Rightarrow> response \<Rightarrow> url" where
  "location_url S resp =
     QueueItemApi (queue_url (rstrip_slash (jenkins_url (config S)))
                     (case location resp of None \<Rightarrow> [] | Some loc \<Rightarrow> loc))"

text \<open>
  The statuses that the status requests of a stretch \<open>evs\<close> of the trace were answered
  with, when \<open>tr\<close> is the history before it: what the completion poller observed.
\<close>

fun observed :: "env \<Rightarrow> event list \<Rightarrow> event list \<Rightarrow> pyval list" where
  "observed E tr [] = []"
| "observed E tr (Req rq # evs) = status_of_reply (net E tr rq) # observed E (tr @ [Req rq]) evs"
| "observed E tr (Sleep d # evs) = observed E (tr @ [Sleep d]) evs"
| "observed E tr (Now t # evs) = observed E (tr @ [Now t]) evs"

text \<open>
  A status is an object (a build status snapshot) or something else. A snapshot is terminal
  when \<^verbatim>\<open>building\<close> is falsy (or absent) and \<^verbatim>\<open>result\<close> is truthy; it succeeded when, further,
  \<^verbatim>\<open>result\<close> is \<^verbatim>\<open>SUCCESS\<close>. A truthy status that is no object is malformed: the poller raises
  on it. \<open>verdict\<close> is what the poller makes of one status: leave with a result, or go on.
\<close>

definition is_object :: "pyval \<Rightarrow> bool" where
  "is_object s = (case s of PDict kvs \<Rightarrow> True | _ \<Rightarrow> False)"

definition snapshot_field :: "pyval \<Rightarrow> string \<Rightarrow> pyval \<Rightarrow> pyval" where
  "snapshot_field s k d =
     (case s of PDict kvs \<Rightarrow> (case map_of kvs k of None \<Rightarrow> d | Some v \<Rightarrow> v) | _ \<Rightarrow> d)"

definition terminal :: "pyval \<Rightarrow> bool" where
  "terminal s =
     (is_object s \<and> \<not> truthy (snapshot_field s ''building'' (PBool False))
      \<and> truthy (snapshot_field s ''result'' PNone))"

definition succeeded :: "pyval \<Rightarrow> bool" where
  "succeeded s = (terminal s \<and> snapshot_field s ''result'' PNone = PStr ''SUCCESS'')"

definition malformed :: "pyval \<Rightarrow> bool" where
  "malformed s = (truthy s \<and> \<not> is_object s)"

definition verdict :: "pyval \<Rightarrow> (exn + bool) option" where
  "verdict s =
     (if malformed s then Some (Inl AttributeError)
      else if terminal s then Some (Inr (succeeded s))
      else None)"

text \<open>
  What holds when the completion loop, started in \<open>w\<close>, has returned \<open>y\<close>: only the trace
  has grown, by status requests for this build; and either the last two effects are a
  clock reading before the deadline and a request whose status gave the result, no status
  before it giving any, or the last effect is a clock reading past the deadline, no
  status gave a result and the result is False.
\<close>

definition wait_post ::
  "env \<Rightarrow> self \<Rightarrow> string \<Rightarrow> pyval \<Rightarrow> nat \<Rightarrow> rat \<Rightarrow> world \<Rightarrow> (exn + bool) \<times> world \<Rightarrow> bool" where
  "wait_post E S job_name build_number timeout start_time w y =
     (\<exists>evs. snd y = w\<lparr>trace := trace w @ evs\<rparr>
           \<and> (\<forall>rq. Req rq \<in> set evs \<longrightarrow> rq = SessionGet (status_url S job_name build_number))
           \<and> ((\<exists>pre t rq. evs = pre @ [Now t, Req rq] \<and> t - start_time < of_nat timeout
                    \<and> (\<forall>x \<in> set (observed E (trace w) pre). verdict x = None)
                    \<and> verdict (status_of_reply (net E (trace w @ pre @ [Now t]) rq)) = Some (fst y))
               \<or> (\<exists>pre t. evs = pre @ [Now t] \<and> of_nat timeout \<le> t - start_time
                    \<and> fst y = Inr False
                    \<and> (\<forall>x \<in> set (observed E (trace w) evs). verdict x = None))))"

text \<open>
  The history of a run of the workflow, read entry by entry: the job index of an entry,
  whether the entry records a success, and the indices of the jobs triggered, in order.
\<close>

fun step_index :: "step \<Rightarrow> nat" where
  "step_index (Triggered k v) = k"
| "step_index (Waited k x) = k"
| "step_index (Polled k x) = k"

fun step_ok :: "step \<Rightarrow> bool" where
  "step_ok (Triggered k v) = (v \<noteq> PNone)"
| "step_ok (Waited k x) = (x = Inr True)"
| "step_ok (Polled k x) = (x = Inr True)"

fun trigger_indices :: "step list \<Rightarrow> nat list" where
  "trigger_indices [] = []"
| "trigger_indices (Triggered k v # hs) = k # trigger_indices hs"
| "trigger_indices (s # hs) = trigger_indices hs"

text \<open>
  The shapes a history can take. \<open>fallout x\<close> is what the workflow returns when a call
  ended with \<open>x\<close> and \<open>x\<close> is not success. \<open>step_shape\<close> lists what one pass of the loop for
  job \<open>i\<close> (of \<open>n\<close>) can add to the history and how it leaves; \<open>run_shape\<close> chains the passes
  of the jobs \<open>i, i + 1, ...\<close> that remain.
\<close>

definition fallout :: "exn + bool \<Rightarrow> exn + bool" where
  "fallout x = (case x of Inl e \<Rightarrow> Inl e | Inr b \<Rightarrow> Inr False)"

definition step_shape :: "nat \<Rightarrow> bool \<Rightarrow> nat \<Rightarrow> step list \<Rightarrow> flow \<Rightarrow> bool" where
  "step_shape n polling i hs fl =
     ((hs = [Triggered i PNone] \<and> fl = Done (Inr False))
      \<or> (\<exists>v x. v \<noteq> PNone \<and> x \<noteq> Inr True \<and> hs = [Triggered i v, Waited i x] \<and> fl = Done (fallout x))
      \<or> (\<exists>v. v \<noteq> PNone \<and> \<not> (Suc i < n \<and> i = 0 \<and> polling)
              \<and> hs = [Triggered i v, Waited i (Inr True)] \<and> fl = Next)
      \<or> (\<exists>v x. v \<noteq> PNone \<and> Suc i < n \<and> i = 0 \<and> polling \<and> x \<noteq> Inr True
              \<and> hs = [Triggered i v, Waited i (Inr True), Polled i x] \<and> fl = Done (fallout x))
      \<or> (\<exists>v. v \<noteq> PNone \<and> Suc i < n \<and> i = 0 \<and> polling
              \<and> hs = [Triggered i v, Waited i (Inr True), Polled i (Inr True)] \<and> fl = Next))"

inductive run_shape :: "nat \<Rightarrow> bool \<Rightarrow> nat \<Rightarrow> nat \<Rightarrow> step list \<Rightarrow> exn + bool \<Rightarrow> bool"
  for n :: nat and polling :: bool where
    finished: "run_shape n polling i 0 [] (Inr True)"
  | stopped: "step_shape n polling i hs (Done r) \<Longrightarrow> run_shape n polling i (Suc m) hs r"
  | went_on: "step_shape n polling i hs Next \<Longrightarrow> run_shape n polling (Suc i) m hs' r
              \<Longrightarrow> run_shape n polling i (Suc m) (hs @ hs') r"

text \<open>
  The jobs whose build was requested, in the order of the requests: the job names of the
  POSTs to \<^verbatim>\<open>buildWithParameters\<close> in a stretch of the trace.
\<close>

fun post_job :: "event \<Rightarrow> string list" where
  "post_job (Req (SessionPost (JobBuildWithParameters base job_name) dat hs)) = [job_name]"
| "post_job _ = []"

definition posted_jobs :: "event list \<Rightarrow> string list" where
  "posted_jobs evs = concat (map post_job evs)"

section \<open>Example inputs\<close>

text \<open>A configuration without a job list: two jobs \<^verbatim>\<open>a\<close> and \<^verbatim>\<open>b\<close> in the old style, a
  completion timeout of 5 seconds checked every 2 seconds, at most 3 polling attempts one
  second apart, and no pause between jobs.\<close>

definition example_config :: config where
  "example_config =
     \<lparr>jenkins_url = ''http://ci/'', branch = None, enable_polling = None, polling_url = None,
      wait_between_builds = Some 0, jobs = None, first_job = Some ''a'', second_job = Some ''b'',
      timeout_seconds = Some 5, check_interval_seconds = Some 2, max_attempts = Some 3,
      interval_seconds = Some 1, expected_status_code = None\<rparr>"

text \<open>An environment that answers the n-th request of a run with the n-th reply of a list
  (whatever the request), and with a fixed reply after that; every effect takes one
  second on its clock.\<close>

definition example_env :: "reply list \<Rightarrow> reply \<Rightarrow> env" where
  "example_env rs dflt =
     \<lparr>net = (\<lambda>tr rq. let n = length (filter is_request tr) in if n < length rs then rs ! n else dflt),
      clock = (\<lambda>tr. of_nat (length tr))\<rparr>"

definition ok_json :: "pyval \<Rightarrow> reply" where
  "ok_json v = Answered \<lparr>status_code = 200, location = None, json = Some v\<rparr>"

definition status_only :: "int \<Rightarrow> reply" where
  "status_only c = Answered \<lparr>status_code = c, location = None, json = None\<rparr>"

definition example_self :: self where
  "example_self = \<lparr>config = example_config, crumb = PNone\<rparr>"

definition world0 :: world where
  "world0 = \<lparr>trace = [], current_job = None, current_build_number = PNone, history = []\<rparr>"

definition queued_response :: response where
  "queued_response = \<lparr>status_code = 201, location = Some ''/queue/item/7/'', json = None\<rparr>"

definition example_queue_url :: url where
  "example_queue_url = QueueItemApi ''http://ci/queue/item/7/''"

text \<open>The queue item starts to run at the third poll.\<close>

definition env_third_poll :: env where
  "env_third_poll =
     example_env
       [ok_json (PDict []),
        ok_json (PDict [(''executable'', PNone), (''cancelled'', PBool False)]),
        ok_json (PDict [(''executable'', PDict [(''number'', PInt 42)])])]
       (Raised RequestException)"

text \<open>An instance with polling enabled.\<close>

definition polling_self :: self where
  "polling_self =
     \<lparr>config = example_config\<lparr>enable_polling := Some True, polling_url := Some ''http://svc/ready''\<rparr>,
      crumb = PNone\<rparr>"

text \<open>Environments for the trigger: the first request of a run is the POST. It is answered
  with 201 and no \<^verbatim>\<open>Location\<close>; or with a queue location, whose item then never starts, or
  answers 404 at the second poll, or is unreachable at the second poll, or sends a JSON
  list at the first.\<close>

definition env_no_location :: env where
  "env_no_location = example_env [status_only 201] (Raised RequestException)"

definition env_never_runs :: env where
  "env_never_runs = example_env [Answered queued_response] (ok_json (PDict []))"

definition env_queue_404 :: env where
  "env_queue_404 =
     example_env [Answered queued_response, ok_json (PDict []), status_only 404]
       (Raised RequestException)"

definition env_queue_down :: env where
  "env_queue_down =
     example_env [Answered queued_response, ok_json (PDict [])] (Raised RequestException)"

definition env_queue_garbled :: env where
  "env_queue_garbled =
     example_env [Answered queued_response, ok_json (PList [PInt 1])] (Raised RequestException)"

text \<open>An instance whose crumb lacks the \<^verbatim>\<open>crumbRequestField\<close> key.\<close>

definition broken_crumb_self :: self where
  "broken_crumb_self = \<lparr>config = example_config, crumb = PDict [(''crumb'', PStr ''abc'')]\<rparr>"

text \<open>Status snapshots of build 42, a build that is seen building, then unreachable, then
  building, then finished with a given result, and an instance that waits up to a minute.\<close>

definition building_snapshot :: pyval where
  "building_snapshot = PDict [(''number'', PInt 42), (''building'', PBool True), (''result'', PNone)]"

definition finished_snapshot :: "string \<Rightarrow> pyval" where
  "finished_snapshot res =
     PDict [(''number'', PInt 42), (''building'', PBool False), (''result'', PStr res)]"

definition patient_self :: self where
  "patient_self = \<lparr>config = example_config\<lparr>timeout_seconds := Some 60\<rparr>, crumb = PNone\<rparr>"

definition env_builds :: "string \<Rightarrow> env" where
  "env_builds res =
     example_env [ok_json building_snapshot, status_only 503, ok_json building_snapshot]
       (ok_json (finished_snapshot res))"

definition example_build_url :: url where
  "example_build_url = JobBuildApi ''http://ci'' ''a'' (PInt 42)"

text \<open>
  Environments for whole runs. Each job is queued, starts as build 42 (43 for the second
  job) at the first queue poll, and is finished at the first status request. In the
  first the build of job \<^verbatim>\<open>a\<close> fails; in the second it succeeds and every later request
  (the external endpoint) answers 500; in the third both jobs succeed; in the fourth the
  external endpoint answers 200 between the two jobs.
\<close>

definition running_reply :: "int \<Rightarrow> reply" where
  "running_reply n = ok_json (PDict [(''executable'', PDict [(''number'', PInt n)])])"

definition env_job_fails :: env where
  "env_job_fails =
     example_env
       [Answered queued_response, running_reply 42, ok_json (finished_snapshot ''FAILURE'')]
       (Raised RequestException)"

definition env_poll_fails :: env where
  "env_poll_fails =
     example_env
       [Answered queued_response, running_reply 42, ok_json (finished_snapshot ''SUCCESS'')]
       (status_only 500)"

definition env_two_jobs :: env where
  "env_two_jobs =
     example_env
       [Answered queued_response, running_reply 42, ok_json (finished_snapshot ''SUCCESS''),
        Answered queued_response, running_reply 43, ok_json (finished_snapshot ''SUCCESS'')]
       (Raised RequestException)"

definition env_poll_passes :: env where
  "env_poll_passes =
     example_env
       [Answered queued_response, running_reply 42, ok_json (finished_snapshot ''SUCCESS''),
        status_only 200,
        Answered queued_response, running_reply 43, ok_json (finished_snapshot ''SUCCESS'')]
       (Raised RequestException)"

text \<open>The build of the first job succeeds, the build of the second fails.\<close>

definition env_second_fails :: env where
  "env_second_fails =
     example_env
       [Answered queued_response, running_reply 42, ok_json (finished_snapshot ''SUCCESS''),
        Answered queued_response, running_reply 43, ok_json (finished_snapshot ''FAILURE'')]
       (Raised RequestException)"

section \<open>The job list\<close>

text \<open>
  Claim C9. When the configuration has no \<^verbatim>\<open>jobs\<close> key, or an empty \<^verbatim>\<open>jobs\<close> list,
  \<^verbatim>\<open>get_jobs_list\<close> returns one or two jobs: the first named by \<^verbatim>\<open>first_job\<close> (or its built-in
  default), the second named by \<^verbatim>\<open>second_job\<close> (or its default) and present exactly when that
  name is non-empty and differs from the first; every job has empty parameters.
\<close>

theorem get_jobs_list_backward_compatible:
  assumes "jobs cfg = None \<or> jobs cfg = Some []"
  shows "let first = (case first_job cfg of None \<Rightarrow> ''tdms-stock-boot'' | Some s \<Rightarrow> s);
             second = (case second_job cfg of
                         None \<Rightarrow> ''tdms-stock-boot-slave-rights-collection'' | Some s \<Rightarrow> s);
             js = get_jobs_list cfg
         in js \<noteq> [] \<and> (length js = 1 \<or> length js = 2)
            \<and> map name js = first # (if second \<noteq> [] \<and> second \<noteq> first then [second] else [])
            \<and> (\<forall>j \<in> set js. parameters j = [])"
  using assms by (auto simp: get_jobs_list_def Let_def)

theorem get_jobs_list_backward_compatible_witness:
  "map name (get_jobs_list example_config) = [''a'', ''b'']
   \<and> map parameters (get_jobs_list example_config) = [[], []]
   \<and> map name (get_jobs_list (example_config\<lparr>second_job := Some ''a''\<rparr>)) = [''a'']
   \<and> map name (get_jobs_list
         (example_config\<lparr>first_job := None, second_job := Some [], jobs := Some []\<rparr>))
       = [''tdms-stock-boot'']"
  using get_jobs_list_backward_compatible [of example_config]
    get_jobs_list_backward_compatible [of "example_config\<lparr>second_job := Some ''a''\<rparr>"]
    get_jobs_list_backward_compatible
      [of "example_config\<lparr>first_job := None, second_job := Some [], jobs := Some []\<rparr>"]
  by (simp add: example_config_def get_jobs_list_def Let_def)

section \<open>Queue resolution\<close>

lemma queue_events_Suc: "queue_events u (Suc k) = Req (SessionGet u) # Sleep 2 # queue_events u k"
  by (simp add: queue_events_def)

lemma queue_events_0: "queue_events u 0 = []"
  by (simp add: queue_events_def)

lemma queue_loop_stops:
  assumes "k < n"
    and "\<forall>j<k. queue_outcome E (trace w @ queue_events u j) u = Inr Continue"
    and "queue_outcome E (trace w @ queue_events u k) u \<noteq> Inr Continue"
  shows "queue_loop E u n w =
           (queue_value (queue_outcome E (trace w @ queue_events u k) u),
            w\<lparr>trace := trace w @ queue_events u k @ [Req (SessionGet u)]\<rparr>)"
  using assms
proof (induction k arbitrary: n w)
  case 0
  then obtain m where n: "n = Suc m" by (cases n) auto
  from 0 show ?case
    by (auto simp: n queue_events_0 session_get_def queue_outcome_def
             split: reply.splits sum.splits queue_step.splits)
next
  case (Suc k)
  then obtain m where n: "n = Suc m" by (cases n) auto
  let ?w = "time_sleep 2 (w\<lparr>trace := trace w @ [Req (SessionGet u)]\<rparr>)"
  have tr: "trace ?w = trace w @ [Req (SessionGet u), Sleep 2]"
    by (simp add: time_sleep_def)
  have first: "queue_outcome E (trace w) u = Inr Continue"
    using Suc.prems(2) by (auto simp: queue_events_0 dest: spec [of _ 0])
  have step: "queue_loop E u n w = queue_loop E u m ?w"
    using first by (auto simp: n session_get_def queue_outcome_def split: reply.splits)
  have "queue_loop E u m ?w =
          (queue_value (queue_outcome E (trace ?w @ queue_events u k) u),
           ?w\<lparr>trace := trace ?w @ queue_events u k @ [Req (SessionGet u)]\<rparr>)"
  proof (rule Suc.IH)
    show "k < m" using Suc.prems(1) n by simp
    show "\<forall>j<k. queue_outcome E (trace ?w @ queue_events u j) u = Inr Continue"
      using Suc.prems(2) by (auto simp: tr queue_events_Suc dest: spec [of _ "Suc j" for j])
    show "queue_outcome E (trace ?w @ queue_events u k) u \<noteq> Inr Continue"
      using Suc.prems(3) by (simp add: tr queue_events_Suc)
  qed
  then show ?case
    by (simp add: step tr queue_events_Suc time_sleep_def)
qed

lemma queue_loop_exhausted:
  assumes "\<forall>j<n. queue_outcome E (trace w @ queue_events u j) u = Inr Continue"
  shows "queue_loop E u n w = (PNone, w\<lparr>trace := trace w @ queue_events u n\<rparr>)"
  using assms
proof (induction n arbitrary: w)
  case 0
  then show ?case by (simp add: queue_events_0)
next
  case (Suc n)
  let ?w = "time_sleep 2 (w\<lparr>trace := trace w @ [Req (SessionGet u)]\<rparr>)"
  have tr: "trace ?w = trace w @ [Req (SessionGet u), Sleep 2]"
    by (simp add: time_sleep_def)
  have first: "queue_outcome E (trace w) u = Inr Continue"
    using Suc.prems by (auto simp: queue_events_0 dest: spec [of _ 0])
  have step: "queue_loop E u (Suc n) w = queue_loop E u n ?w"
    using first by (auto simp: session_get_def queue_outcome_def split: reply.splits)
  have "queue_loop E u n ?w = (PNone, ?w\<lparr>trace := trace ?w @ queue_events u n\<rparr>)"
  proof (rule Suc.IH)
    show "\<forall>j<n. queue_outcome E (trace ?w @ queue_events u j) u = Inr Continue"
      using Suc.prems by (auto simp: tr queue_events_Suc dest: spec [of _ "Suc j" for j])
  qed
  then show ?case
    unfolding step by (simp add: tr queue_events_Suc time_sleep_def)
qed

lemma still_queued_outcome:
  "still_queued (net E tr (SessionGet u)) \<Longrightarrow> queue_outcome E tr u = Inr Continue"
  apply (cases "net E tr (SessionGet u)")
   apply (simp add: still_queued_def)
  subgoal for r
    apply (cases "json r")
     apply (simp add: still_queued_def)
    subgoal for doc
      apply (cases doc)
           apply (simp_all add: still_queued_def)
      subgoal for d
        apply (cases "map_of d ''executable''")
         apply (auto simp: queue_outcome_def queue_decide_def response_json_def py_get_def
                     split: option.splits)[1]
        subgoal for ex
          by (cases ex)
             (auto simp: queue_outcome_def queue_decide_def response_json_def py_get_def
                   split: option.splits)
        done
      done
    done
  done

lemma executable_number_outcome:
  "executable_number (net E tr (SessionGet u)) = Some v \<Longrightarrow> truthy v
     \<Longrightarrow> queue_outcome E tr u = Inr (Return v)"
  by (auto simp: executable_number_def queue_outcome_def queue_decide_def response_json_def
                 py_get_def
           split: reply.splits option.splits pyval.splits if_splits)

lemma queue_loop_bound:
  "\<exists>evs. snd (queue_loop E u n w) = w\<lparr>trace := trace w @ evs\<rparr> \<and> length (filter is_request evs) \<le> n"
proof (induction n arbitrary: w)
  case 0
  show ?case by (rule exI [of _ "[]"]) simp
next
  case (Suc n)
  let ?w1 = "w\<lparr>trace := trace w @ [Req (SessionGet u)]\<rparr>"
  show ?case
  proof (cases "queue_outcome E (trace w) u = Inr Continue")
    case True
    then have step: "queue_loop E u (Suc n) w = queue_loop E u n (time_sleep 2 ?w1)"
      by (auto simp: session_get_def queue_outcome_def split: reply.splits)
    from Suc [of "time_sleep 2 ?w1"] obtain evs where
      evs: "snd (queue_loop E u n (time_sleep 2 ?w1)) = (time_sleep 2 ?w1)\<lparr>trace := trace (time_sleep 2 ?w1) @ evs\<rparr>"
        "length (filter is_request evs) \<le> n"
      by blast
    show ?thesis
      unfolding step using evs
      by (intro exI [of _ "Req (SessionGet u) # Sleep 2 # evs"]) (simp add: time_sleep_def)
  next
    case False
    then have "snd (queue_loop E u (Suc n) w) = ?w1"
      by (auto simp: session_get_def queue_outcome_def
               split: reply.splits sum.splits queue_step.splits)
    then show ?thesis
      by (intro exI [of _ "[Req (SessionGet u)]"]) simp
  qed
qed

lemma example_queue_url_eq:
  "QueueItemApi (queue_url (rstrip_slash (jenkins_url (config example_self))) ''/queue/item/7/'')
     = example_queue_url"
  by (simp add: example_queue_url_def queue_url_def rstrip_slash_def startswith_def
        example_self_def example_config_def)

text \<open>
  Claim C3. Queue resolution polls the queue-item endpoint at most 30 times. A queue item
  answers 200 with a JSON object \<^verbatim>\<open>{executable: {number}?, cancelled: bool?}\<close>, and a build
  number is a positive integer. If the polls before poll number \<open>k + 1\<close> all got a 200
  response without an executable build number and without cancellation, and poll \<open>k + 1\<close>
  gets a 200 response whose \<^verbatim>\<open>executable\<close> object has the \<^verbatim>\<open>number\<close> \<open>n\<close>, then \<open>n\<close> is returned
  at once, after exactly \<open>k + 1\<close> polls: the trace is \<open>k\<close> polls with their sleeps and one
  more poll (3 polls when the number first appears at the third). If all 30 polls get a
  200 response without an executable build number and without cancellation, None is
  returned after exactly 30 polls.
\<close>

theorem queue_resolution_polls:
  assumes "location resp = Some loc" and "loc \<noteq> []"
    and "u = QueueItemApi (queue_url (rstrip_slash (jenkins_url (config S))) loc)"
  shows "(\<exists>evs. snd (get_build_number_from_queue E S resp job_name w) = w\<lparr>trace := trace w @ evs\<rparr>
            \<and> length (filter is_request evs) \<le> 30)
       \<and> (k < 30 \<and> (\<forall>j<k. still_queued (net E (trace w @ queue_events u j) (SessionGet u)))
            \<and> executable_number (net E (trace w @ queue_events u k) (SessionGet u)) = Some (PInt n)
            \<and> 0 < n
          \<longrightarrow> get_build_number_from_queue E S resp job_name w =
                (PInt n, w\<lparr>trace := trace w @ queue_events u k @ [Req (SessionGet u)]\<rparr>)
              \<and> length (filter is_request (queue_events u k @ [Req (SessionGet u)])) = Suc k)
       \<and> ((\<forall>j<30. still_queued (net E (trace w @ queue_events u j) (SessionGet u)))
          \<longrightarrow> get_build_number_from_queue E S resp job_name w =
                (PNone, w\<lparr>trace := trace w @ queue_events u 30\<rparr>)
              \<and> length (filter is_request (queue_events u 30)) = 30)"
proof -
  have unfold: "get_build_number_from_queue E S resp job_name w = queue_loop E u 30 w"
    using assms by (simp add: get_build_number_from_queue_def)
  have count: "length (filter is_request (queue_events u m)) = m" for m
    by (induction m) (simp_all add: queue_events_0 queue_events_Suc)
  have bound: "\<exists>evs. snd (get_build_number_from_queue E S resp job_name w) = w\<lparr>trace := trace w @ evs\<rparr>
            \<and> length (filter is_request evs) \<le> 30"
    unfolding unfold by (rule queue_loop_bound)
  have found: "get_build_number_from_queue E S resp job_name w =
                (PInt n, w\<lparr>trace := trace w @ queue_events u k @ [Req (SessionGet u)]\<rparr>)"
    if "k < 30" and q: "\<forall>j<k. still_queued (net E (trace w @ queue_events u j) (SessionGet u))"
      and n: "executable_number (net E (trace w @ queue_events u k) (SessionGet u)) = Some (PInt n)"
      and "0 < n"
  proof -
    from \<open>0 < n\<close> have "truthy (PInt n)" by simp
    with n have out: "queue_outcome E (trace w @ queue_events u k) u = Inr (Return (PInt n))"
      by (rule executable_number_outcome)
    have "queue_loop E u 30 w =
            (queue_value (queue_outcome E (trace w @ queue_events u k) u),
             w\<lparr>trace := trace w @ queue_events u k @ [Req (SessionGet u)]\<rparr>)"
      using \<open>k < 30\<close> q by (intro queue_loop_stops) (simp_all add: still_queued_outcome out)
    then show ?thesis by (simp add: unfold out)
  qed
  have none: "get_build_number_from_queue E S resp job_name w =
                (PNone, w\<lparr>trace := trace w @ queue_events u 30\<rparr>)"
    if "\<forall>j<30. still_queued (net E (trace w @ queue_events u j) (SessionGet u))"
    unfolding unfold using that by (intro queue_loop_exhausted) (simp add: still_queued_outcome)
  show ?thesis
    using bound found none by (simp add: count)
qed

theorem queue_resolution_polls_witness:
  "get_build_number_from_queue env_third_poll example_self queued_response ''a'' world0 =
     (PInt 42,
      world0\<lparr>trace := [Req (SessionGet example_queue_url), Sleep 2,
                        Req (SessionGet example_queue_url), Sleep 2,
                        Req (SessionGet example_queue_url)]\<rparr>)
   \<and> length (filter is_request [Req (SessionGet example_queue_url), Sleep 2,
                                  Req (SessionGet example_queue_url), Sleep 2,
                                  Req (SessionGet example_queue_url)]) = 3
   \<and> get_build_number_from_queue (example_env [] (ok_json (PDict []))) example_self
         queued_response ''a'' world0 =
       (PNone, world0\<lparr>trace := queue_events example_queue_url 30\<rparr>)
   \<and> length (filter is_request (queue_events example_queue_url 30)) = 30"
proof -
  have loc: "location queued_response = Some ''/queue/item/7/''" "''/queue/item/7/'' \<noteq> []"
    by (simp_all add: queued_response_def)
  have two: "(2::nat) < 30" "(0::int) < 42" by simp_all
  have q: "\<forall>j<2. still_queued
             (net env_third_poll (trace world0 @ queue_events example_queue_url j)
                (SessionGet example_queue_url))"
    by (simp add: less_2_cases_iff env_third_poll_def example_env_def world0_def queue_events_def
          ok_json_def still_queued_def)
  have n: "executable_number
             (net env_third_poll (trace world0 @ queue_events example_queue_url 2)
                (SessionGet example_queue_url)) = Some (PInt 42)"
    by (simp add: env_third_poll_def example_env_def world0_def queue_events_def
          ok_json_def executable_number_def numeral_2_eq_2)
  have q30: "\<forall>j<30. still_queued
             (net (example_env [] (ok_json (PDict []))) (trace world0 @ queue_events example_queue_url j)
                (SessionGet example_queue_url))"
    by (simp add: example_env_def ok_json_def still_queued_def)
  have found: "get_build_number_from_queue env_third_poll example_self queued_response ''a'' world0 =
     (PInt 42,
      world0\<lparr>trace := [Req (SessionGet example_queue_url), Sleep 2,
                        Req (SessionGet example_queue_url), Sleep 2,
                        Req (SessionGet example_queue_url)]\<rparr>)"
    using queue_resolution_polls [OF loc example_queue_url_eq [symmetric],
            of env_third_poll "''a''" world0 2 42] two q n
    by (simp add: queue_events_def world0_def numeral_2_eq_2)
  have none: "get_build_number_from_queue (example_env [] (ok_json (PDict []))) example_self
         queued_response ''a'' world0 =
       (PNone, world0\<lparr>trace := queue_events example_queue_url 30\<rparr>)
     \<and> length (filter is_request (queue_events example_queue_url 30)) = 30"
    using queue_resolution_polls [OF loc example_queue_url_eq [symmetric],
            of "example_env [] (ok_json (PDict []))" "''a''" world0 2 42] q30
    by (simp add: world0_def)
  show ?thesis
    using found none by simp
qed

section \<open>External endpoint poller\<close>

lemma poll_events_Suc:
  "poll_events u i (Suc k) = Req (RequestsGet u) # Sleep i # poll_events u i k"
  by (simp add: poll_events_def)

lemma poll_events_0: "poll_events u i 0 = []"
  by (simp add: poll_events_def)

lemma poll_loop_hit:
  assumes "a + k \<le> m"
    and "\<forall>j<k. \<not> status_matches E (trace w @ poll_events u i j) u x"
    and "status_matches E (trace w @ poll_events u i k) u x"
  shows "poll_loop E u m i x a w =
           (True, w\<lparr>trace := trace w @ poll_events u i k @ [Req (RequestsGet u)]\<rparr>)"
  using assms
proof (induction k arbitrary: a w)
  case 0
  then show ?case
    by (subst poll_loop.simps)
       (auto simp: poll_events_0 requests_get_def status_matches_def split: reply.splits)
next
  case (Suc k)
  let ?w = "time_sleep i (w\<lparr>trace := trace w @ [Req (RequestsGet u)]\<rparr>)"
  have tr: "trace ?w = trace w @ [Req (RequestsGet u), Sleep i]"
    by (simp add: time_sleep_def)
  have first: "\<not> status_matches E (trace w) u x"
    using Suc.prems(2) by (auto simp: poll_events_0 dest: spec [of _ 0])
  have step: "poll_loop E u m i x a w = poll_loop E u m i x (Suc a) ?w"
    using first Suc.prems(1)
    by (subst poll_loop.simps)
       (auto simp: requests_get_def status_matches_def split: reply.splits)
  have "poll_loop E u m i x (Suc a) ?w =
          (True, ?w\<lparr>trace := trace ?w @ poll_events u i k @ [Req (RequestsGet u)]\<rparr>)"
  proof (rule Suc.IH)
    show "Suc a + k \<le> m" using Suc.prems(1) by simp
    show "\<forall>j<k. \<not> status_matches E (trace ?w @ poll_events u i j) u x"
      using Suc.prems(2) by (auto simp: tr poll_events_Suc dest: spec [of _ "Suc j" for j])
    show "status_matches E (trace ?w @ poll_events u i k) u x"
      using Suc.prems(3) by (simp add: tr poll_events_Suc)
  qed
  then show ?case
    unfolding step by (simp add: tr poll_events_Suc time_sleep_def)
qed

lemma poll_loop_miss:
  assumes "\<forall>j<Suc m - a. \<not> status_matches E (trace w @ poll_events u i j) u x"
  shows "poll_loop E u m i x a w =
           (False, w\<lparr>trace := trace w @
                      (if a \<le> m then poll_events u i (m - a) @ [Req (RequestsGet u)] else [])\<rparr>)"
  using assms
proof (induction "Suc m - a" arbitrary: a w)
  case 0
  then show ?case
    by (subst poll_loop.simps) simp
next
  case (Suc d)
  let ?w1 = "w\<lparr>trace := trace w @ [Req (RequestsGet u)]\<rparr>"
  let ?w = "if a < m then time_sleep i ?w1 else ?w1"
  have a: "a \<le> m" and d: "d = Suc m - Suc a" using Suc.hyps(2) by simp_all
  have first: "\<not> status_matches E (trace w) u x"
    using Suc.prems Suc.hyps(2) by (auto simp: poll_events_0 dest: spec [of _ 0])
  have step: "poll_loop E u m i x a w = poll_loop E u m i x (Suc a) ?w"
    using first a
    by (subst poll_loop.simps)
       (auto simp: requests_get_def status_matches_def split: reply.splits)
  show ?case
  proof (cases "a < m")
    case True
    have tr: "trace ?w = trace w @ [Req (RequestsGet u), Sleep i]"
      using True by (simp add: time_sleep_def)
    have "poll_loop E u m i x (Suc a) ?w =
            (False, ?w\<lparr>trace := trace ?w @
                      (if Suc a \<le> m then poll_events u i (m - Suc a) @ [Req (RequestsGet u)] else [])\<rparr>)"
    proof (rule Suc.hyps(1) [OF d])
      show "\<forall>j<Suc m - Suc a. \<not> status_matches E (trace ?w @ poll_events u i j) u x"
      proof (intro allI impI)
        fix j assume "j < Suc m - Suc a"
        then have "Suc j < Suc m - a" using True by simp
        with Suc.prems have "\<not> status_matches E (trace w @ poll_events u i (Suc j)) u x" by blast
        then show "\<not> status_matches E (trace ?w @ poll_events u i j) u x"
          unfolding tr by (simp add: poll_events_Suc)
      qed
    qed
    moreover have "m - a = Suc (m - Suc a)" using True by simp
    ultimately show ?thesis
      unfolding step using True by (simp add: poll_events_Suc time_sleep_def)
  next
    case False
    with a have "a = m" by simp
    then have "poll_loop E u m i x (Suc a) ?w = (False, ?w1)"
      by (subst poll_loop.simps) simp
    then show ?thesis
      unfolding step using \<open>a = m\<close> by (simp add: poll_events_0)
  qed
qed

lemma poll_loop_bound:
  "\<exists>evs. snd (poll_loop E u m i x a w) = w\<lparr>trace := trace w @ evs\<rparr>
         \<and> length (filter is_request evs) \<le> Suc m - a"
proof (induction "Suc m - a" arbitrary: a w)
  case 0
  show ?case
    using 0 by (subst poll_loop.simps) (auto intro: exI [of _ "[]"])
next
  case (Suc d)
  let ?w1 = "w\<lparr>trace := trace w @ [Req (RequestsGet u)]\<rparr>"
  let ?w = "if a < m then time_sleep i ?w1 else ?w1"
  have a: "a \<le> m" and d: "d = Suc m - Suc a" using Suc.hyps(2) by simp_all
  show ?case
  proof (cases "status_matches E (trace w) u x")
    case True
    then have "poll_loop E u m i x a w = (True, ?w1)"
      using a
      by (subst poll_loop.simps)
         (auto simp: requests_get_def status_matches_def split: reply.splits)
    then show ?thesis
      using Suc.hyps(2) by (intro exI [of _ "[Req (RequestsGet u)]"]) simp
  next
    case False
    then have step: "poll_loop E u m i x a w = poll_loop E u m i x (Suc a) ?w"
      using a
      by (subst poll_loop.simps)
         (auto simp: requests_get_def status_matches_def split: reply.splits)
    from Suc.hyps(1) [OF d, of ?w] obtain evs where
      evs: "snd (poll_loop E u m i x (Suc a) ?w) = ?w\<lparr>trace := trace ?w @ evs\<rparr>"
        "length (filter is_request evs) \<le> Suc m - Suc a"
      by blast
    show ?thesis
      unfolding step using evs Suc.hyps(2)
      by (intro exI [of _ "(if a < m then [Req (RequestsGet u), Sleep i] else [Req (RequestsGet u)]) @ evs"])
         (auto simp: time_sleep_def)
  qed
qed

text \<open>
  Claim C5. With \<open>m\<close>, \<open>i\<close> and \<open>x\<close> the configured (or default) maximum of attempts,
  interval and expected status: \<^verbatim>\<open>poll_interface\<close> sends at most \<open>m\<close> GET requests. If attempt
  \<open>k + 1 \<le> m\<close> is the first whose status is \<open>x\<close>, it returns True with the trace of \<open>k\<close>
  failed attempts, each followed by a sleep of \<open>i\<close>, and the matching attempt, nothing
  after it. If none of \<open>m\<close> attempts matches (another status and an exception of the GET
  count alike), it returns False with \<open>m\<close> attempts and a sleep of \<open>i\<close> between them, none
  after the last.
\<close>

theorem poll_interface_attempts:
  assumes "(case interface_url of
              Some y \<Rightarrow> if y \<noteq> [] then Some y else polling_url (config S)
            | None \<Rightarrow> polling_url (config S)) = Some u"
    and "m = (case max_attempts (config S) of None \<Rightarrow> 60 | Some n \<Rightarrow> n)"
    and "i = (case interval_seconds (config S) of None \<Rightarrow> 30 | Some n \<Rightarrow> n)"
    and "x = (case expected_status_code (config S) of None \<Rightarrow> 200 | Some c \<Rightarrow> c)"
  shows "(\<exists>evs. snd (poll_interface E S interface_url w) = w\<lparr>trace := trace w @ evs\<rparr>
            \<and> length (filter is_request evs) \<le> m)
       \<and> (k < m \<and> (\<forall>j<k. \<not> status_matches E (trace w @ poll_events u i j) u x)
            \<and> status_matches E (trace w @ poll_events u i k) u x
          \<longrightarrow> poll_interface E S interface_url w =
                (Inr True, w\<lparr>trace := trace w @ poll_events u i k @ [Req (RequestsGet u)]\<rparr>))
       \<and> ((\<forall>j<m. \<not> status_matches E (trace w @ poll_events u i j) u x)
          \<longrightarrow> poll_interface E S interface_url w =
                (Inr False,
                 w\<lparr>trace := trace w @
                        (if 0 < m then poll_events u i (m - 1) @ [Req (RequestsGet u)] else [])\<rparr>))"
proof -
  have unfold: "poll_interface E S interface_url w =
                  (Inr (fst (poll_loop E u m i x 1 w)), snd (poll_loop E u m i x 1 w))"
    using assms by (simp add: poll_interface_def Let_def split: prod.splits)
  have bound: "\<exists>evs. snd (poll_interface E S interface_url w) = w\<lparr>trace := trace w @ evs\<rparr>
            \<and> length (filter is_request evs) \<le> m"
    using poll_loop_bound [of E u m i x 1 w] by (simp add: unfold)
  have hit: "poll_interface E S interface_url w =
                (Inr True, w\<lparr>trace := trace w @ poll_events u i k @ [Req (RequestsGet u)]\<rparr>)"
    if "k < m" and "\<forall>j<k. \<not> status_matches E (trace w @ poll_events u i j) u x"
      and "status_matches E (trace w @ poll_events u i k) u x"
    using poll_loop_hit [of 1 k m E w u i x] that by (simp add: unfold)
  have miss: "poll_interface E S interface_url w =
                (Inr False,
                 w\<lparr>trace := trace w @
                        (if 0 < m then poll_events u i (m - 1) @ [Req (RequestsGet u)] else [])\<rparr>)"
    if "\<forall>j<m. \<not> status_matches E (trace w @ poll_events u i j) u x"
    using poll_loop_miss [of m 1 E w u i x] that by (auto simp: unfold)
  show ?thesis
    using bound hit miss by blast
qed

theorem poll_interface_attempts_witness:
  "poll_interface (example_env [status_only 500, Raised RequestException, status_only 200] (status_only 500))
     polling_self None world0 =
     (Inr True,
      world0\<lparr>trace := [Req (RequestsGet ''http://svc/ready''), Sleep 1,
                        Req (RequestsGet ''http://svc/ready''), Sleep 1,
                        Req (RequestsGet ''http://svc/ready'')]\<rparr>)
   \<and> poll_interface (example_env [] (status_only 500)) polling_self None world0 =
     (Inr False,
      world0\<lparr>trace := [Req (RequestsGet ''http://svc/ready''), Sleep 1,
                        Req (RequestsGet ''http://svc/ready''), Sleep 1,
                        Req (RequestsGet ''http://svc/ready'')]\<rparr>)"
proof -
  let ?E = "example_env [status_only 500, Raised RequestException, status_only 200] (status_only 500)"
  let ?u = "''http://svc/ready''"
  have cfg: "(case None of
              Some y \<Rightarrow> if y \<noteq> [] then Some y else polling_url (config polling_self)
            | None \<Rightarrow> polling_url (config polling_self)) = Some ?u"
    "3 = (case max_attempts (config polling_self) of None \<Rightarrow> 60 | Some n \<Rightarrow> n)"
    "1 = (case interval_seconds (config polling_self) of None \<Rightarrow> 30 | Some n \<Rightarrow> n)"
    "200 = (case expected_status_code (config polling_self) of None \<Rightarrow> 200 | Some c \<Rightarrow> c)"
    by (simp_all add: polling_self_def example_config_def)
  have two: "(2::nat) < 3" by simp
  have before: "\<forall>j<2. \<not> status_matches ?E (trace world0 @ poll_events ?u 1 j) ?u 200"
    by (simp add: less_2_cases_iff example_env_def world0_def poll_events_def status_only_def
          status_matches_def)
  have third: "status_matches ?E (trace world0 @ poll_events ?u 1 2) ?u 200"
    by (simp add: example_env_def world0_def poll_events_def status_only_def status_matches_def
          numeral_2_eq_2)
  have never: "\<forall>j<3. \<not> status_matches (example_env [] (status_only 500))
                  (trace world0 @ poll_events ?u 1 j) ?u 200"
    by (simp add: example_env_def status_only_def status_matches_def)
  show ?thesis
    using poll_interface_attempts [OF cfg, of ?E world0 2]
      poll_interface_attempts [OF cfg, of "example_env [] (status_only 500)" world0 2]
      two before third never
    by (simp add: poll_events_def world0_def numeral_2_eq_2)
qed

section \<open>Build trigger\<close>

lemma trigger_build_posted:
  assumes "crumb_headers (crumb S) = Inr hs"
    and "net E (trace w) (trigger_post S job_name br ps hs) = Answered resp"
    and "status_code resp = 200 \<or> status_code resp = 201"
  shows "trigger_build E S job_name br ps w =
           (let r = get_build_number_from_queue E S resp job_name
                      (w\<lparr>trace := trace w @ [Req (trigger_post S job_name br ps hs)]\<rparr>)
            in (if truthy (fst r) then fst r else PInt (- 1), snd r))"
  using assms
  by (auto simp: trigger_build_def trigger_build_body_def session_post_def trigger_post_def Let_def
           split: prod.splits)

lemma get_build_number_from_queue_loop:
  assumes "location resp = Some loc" and "loc \<noteq> []"
  shows "get_build_number_from_queue E S resp job_name w = queue_loop E (location_url S resp) 30 w"
  using assms by (simp add: get_build_number_from_queue_def location_url_def)

lemma status_url_sentinel:
  "status_url S job_name (PInt (- 1)) = JobLastBuildApi (rstrip_slash (jenkins_url (config S))) job_name"
  by (simp add: status_url_def)

lemma get_job_status_request:
  "get_job_status E S job_name build_number w =
     (status_of_reply (net E (trace w) (SessionGet (status_url S job_name build_number))),
      w\<lparr>trace := trace w @ [Req (SessionGet (status_url S job_name build_number))]\<rparr>)"
  by (auto simp: get_job_status_def session_get_def status_of_reply_def response_json_def
           split: reply.splits option.splits)

lemma example_location_url: "location_url example_self queued_response = example_queue_url"
  by (simp add: location_url_def queued_response_def example_queue_url_eq)

lemma example_crumb: "crumb_headers (crumb example_self) = Inr []"
  by (simp add: crumb_headers_def example_self_def)

text \<open>
  Claim C6. Let the trigger POST be answered with status 200 or 201. If the response has
  no \<^verbatim>\<open>Location\<close> header (or an empty one), or all 30 queue polls find the item still
  queued, or some queue poll (the earlier ones finding the item still queued) raises an
  exception or gets a status other than 200, then \<^verbatim>\<open>trigger_build\<close> returns -1; and
  \<^verbatim>\<open>get_job_status\<close>, called with what \<^verbatim>\<open>trigger_build\<close> returned, sends its GET to the
  \<^verbatim>\<open>lastBuild\<close> URL of the job.
\<close>

theorem trigger_build_sentinel:
  assumes "crumb_headers (crumb S) = Inr hs"
    and "net E (trace w) (trigger_post S job_name br ps hs) = Answered resp"
    and "status_code resp = 200 \<or> status_code resp = 201"
    and "tr = trace w @ [Req (trigger_post S job_name br ps hs)]"
    and "u = location_url S resp"
    and "location resp = None \<or> location resp = Some []
         \<or> (\<forall>j<30. still_queued (net E (tr @ queue_events u j) (SessionGet u)))
         \<or> (\<exists>k<30. (\<forall>j<k. still_queued (net E (tr @ queue_events u j) (SessionGet u)))
               \<and> ((\<exists>e. net E (tr @ queue_events u k) (SessionGet u) = Raised e)
                  \<or> (\<exists>r. net E (tr @ queue_events u k) (SessionGet u) = Answered r
                         \<and> status_code r \<noteq> 200)))"
  shows "fst (trigger_build E S job_name br ps w) = PInt (- 1)
       \<and> get_job_status E S job_name (fst (trigger_build E S job_name br ps w)) w' =
           (status_of_reply
              (net E (trace w')
                 (SessionGet (JobLastBuildApi (rstrip_slash (jenkins_url (config S))) job_name))),
            w'\<lparr>trace := trace w' @
                   [Req (SessionGet (JobLastBuildApi (rstrip_slash (jenkins_url (config S))) job_name))]\<rparr>)"
proof -
  let ?w1 = "w\<lparr>trace := trace w @ [Req (trigger_post S job_name br ps hs)]\<rparr>"
  have tr: "trace ?w1 = tr" by (simp add: assms(4))
  have "fst (get_build_number_from_queue E S resp job_name ?w1) = PNone"
  proof (cases "location resp = None \<or> location resp = Some []")
    case True
    then show ?thesis by (auto simp: get_build_number_from_queue_def)
  next
    case False
    then obtain loc where loc: "location resp = Some loc" "loc \<noteq> []" by auto
    have loop: "get_build_number_from_queue E S resp job_name ?w1 = queue_loop E u 30 ?w1"
      using loc by (simp add: get_build_number_from_queue_loop assms(5))
    from False assms(6) consider
      (exhausted) "\<forall>j<30. still_queued (net E (tr @ queue_events u j) (SessionGet u))"
      | (stopped) k where "k < 30"
          "\<forall>j<k. still_queued (net E (tr @ queue_events u j) (SessionGet u))"
          "(\<exists>e. net E (tr @ queue_events u k) (SessionGet u) = Raised e)
            \<or> (\<exists>r. net E (tr @ queue_events u k) (SessionGet u) = Answered r \<and> status_code r \<noteq> 200)"
      by blast
    then show ?thesis
    proof cases
      case exhausted
      then have "queue_loop E u 30 ?w1 = (PNone, ?w1\<lparr>trace := trace ?w1 @ queue_events u 30\<rparr>)"
        by (intro queue_loop_exhausted) (simp add: tr still_queued_outcome)
      then show ?thesis by (simp add: loop)
    next
      case stopped
      have out: "queue_outcome E (tr @ queue_events u k) u = Inr Break
                 \<or> (\<exists>e. queue_outcome E (tr @ queue_events u k) u = Inl e)"
        using stopped(3) by (auto simp: queue_outcome_def queue_decide_def)
      have "queue_loop E u 30 ?w1 =
              (queue_value (queue_outcome E (trace ?w1 @ queue_events u k) u),
               ?w1\<lparr>trace := trace ?w1 @ queue_events u k @ [Req (SessionGet u)]\<rparr>)"
        using stopped(1,2) out by (intro queue_loop_stops) (auto simp: tr still_queued_outcome)
      then show ?thesis using out by (auto simp: loop tr)
    qed
  qed
  then have "fst (trigger_build E S job_name br ps w) = PInt (- 1)"
    by (simp add: trigger_build_posted [OF assms(1-3)] Let_def)
  then show ?thesis
    by (simp add: get_job_status_request status_url_sentinel)
qed

theorem trigger_build_sentinel_witness:
  "fst (trigger_build env_no_location example_self ''a'' None None world0) = PInt (- 1)
   \<and> fst (trigger_build env_never_runs example_self ''a'' None None world0) = PInt (- 1)
   \<and> fst (trigger_build env_queue_404 example_self ''a'' None None world0) = PInt (- 1)
   \<and> fst (trigger_build env_queue_down example_self ''a'' None None world0) = PInt (- 1)
   \<and> snd (get_job_status env_queue_down example_self ''a''
             (fst (trigger_build env_queue_down example_self ''a'' None None world0)) world0) =
       world0\<lparr>trace := [Req (SessionGet (JobLastBuildApi ''http://ci'' ''a''))]\<rparr>"
proof -
  let ?p = "trigger_post example_self ''a'' None None []"
  let ?u = example_queue_url
  have one: "(1::nat) < 30" by simp
  have a: "net env_no_location (trace world0) ?p =
             Answered \<lparr>status_code = 201, location = None, json = None\<rparr>"
    by (simp add: env_no_location_def example_env_def world0_def status_only_def)
  have b: "net env_never_runs (trace world0) ?p = Answered queued_response"
    "\<forall>j<30. still_queued (net env_never_runs ((trace world0 @ [Req ?p]) @ queue_events ?u j) (SessionGet ?u))"
    by (simp_all add: env_never_runs_def example_env_def world0_def ok_json_def still_queued_def)
  have c: "net env_queue_404 (trace world0) ?p = Answered queued_response"
    "\<forall>j<1. still_queued (net env_queue_404 ((trace world0 @ [Req ?p]) @ queue_events ?u j) (SessionGet ?u))"
    "net env_queue_404 ((trace world0 @ [Req ?p]) @ queue_events ?u 1) (SessionGet ?u) =
       Answered \<lparr>status_code = 404, location = None, json = None\<rparr>"
    by (simp_all add: env_queue_404_def example_env_def world0_def ok_json_def still_queued_def
          queue_events_def status_only_def)
  have d: "net env_queue_down (trace world0) ?p = Answered queued_response"
    "\<forall>j<1. still_queued (net env_queue_down ((trace world0 @ [Req ?p]) @ queue_events ?u j) (SessionGet ?u))"
    "net env_queue_down ((trace world0 @ [Req ?p]) @ queue_events ?u 1) (SessionGet ?u) =
       Raised RequestException"
    by (simp_all add: env_queue_down_def example_env_def world0_def ok_json_def still_queued_def
          queue_events_def)
  have s: "status_code queued_response = 200 \<or> status_code queued_response = 201"
    by (simp add: queued_response_def)
  have 1: "fst (trigger_build env_no_location example_self ''a'' None None world0) = PInt (- 1)"
    using trigger_build_sentinel [OF example_crumb a _ refl refl, of world0] by simp
  have 2: "fst (trigger_build env_never_runs example_self ''a'' None None world0) = PInt (- 1)"
    using trigger_build_sentinel [OF example_crumb b(1) s refl example_location_url [symmetric],
            of world0] b(2)
    by blast
  have "\<exists>k<30. (\<forall>j<k. still_queued
            (net env_queue_404 ((trace world0 @ [Req ?p]) @ queue_events ?u j) (SessionGet ?u)))
          \<and> ((\<exists>e. net env_queue_404 ((trace world0 @ [Req ?p]) @ queue_events ?u k) (SessionGet ?u)
                    = Raised e)
             \<or> (\<exists>r. net env_queue_404 ((trace world0 @ [Req ?p]) @ queue_events ?u k) (SessionGet ?u)
                    = Answered r \<and> status_code r \<noteq> 200))"
    using c(2,3) one by (intro exI [of _ 1]) simp
  then have 3: "fst (trigger_build env_queue_404 example_self ''a'' None None world0) = PInt (- 1)"
    using trigger_build_sentinel [OF example_crumb c(1) s refl example_location_url [symmetric],
            of world0]
    by blast
  have "\<exists>k<30. (\<forall>j<k. still_queued
            (net env_queue_down ((trace world0 @ [Req ?p]) @ queue_events ?u j) (SessionGet ?u)))
          \<and> ((\<exists>e. net env_queue_down ((trace world0 @ [Req ?p]) @ queue_events ?u k) (SessionGet ?u)
                    = Raised e)
             \<or> (\<exists>r. net env_queue_down ((trace world0 @ [Req ?p]) @ queue_events ?u k) (SessionGet ?u)
                    = Answered r \<and> status_code r \<noteq> 200))"
    using d(2,3) one by (intro exI [of _ 1]) simp
  then have 4: "fst (trigger_build env_queue_down example_self ''a'' None None world0) = PInt (- 1)
    \<and> get_job_status env_queue_down example_self ''a''
             (fst (trigger_build env_queue_down example_self ''a'' None None world0)) world0 =
       (status_of_reply
          (net env_queue_down (trace world0)
             (SessionGet (JobLastBuildApi (rstrip_slash (jenkins_url (config example_self))) ''a''))),
        world0\<lparr>trace := trace world0 @ [Req (SessionGet (JobLastBuildApi (rstrip_slash (jenkins_url (config example_self))) ''a''))]\<rparr>)"
    using trigger_build_sentinel [OF example_crumb d(1) s refl example_location_url [symmetric],
            of world0]
    by blast
  have base: "rstrip_slash (jenkins_url (config example_self)) = ''http://ci''"
    by (simp add: rstrip_slash_def example_self_def example_config_def)
  from 4 have 5: "snd (get_job_status env_queue_down example_self ''a''
             (fst (trigger_build env_queue_down example_self ''a'' None None world0)) world0) =
       world0\<lparr>trace := [Req (SessionGet (JobLastBuildApi ''http://ci'' ''a''))]\<rparr>"
    by (elim conjE) (simp add: base world0_def)
  show ?thesis
    using 1 2 3 4 5 by blast
qed

text \<open>
  Claim C10. \<^verbatim>\<open>trigger_build\<close> returns a value on every input: whatever exception leaves its
  \<^verbatim>\<open>try\<close> block becomes the result None, with the effects made so far. In particular a
  crumb that cannot be subscripted gives None before any request, and a POST that raises
  gives None after it. An exception inside a queue poll (the request, the JSON decoding or
  a \<^verbatim>\<open>.get\<close> on a non-object) ends queue resolution, and the trigger returns -1.
\<close>

theorem trigger_build_catches:
  "(trigger_build_body E S job_name br ps w = (Inl e, w0)
      \<longrightarrow> trigger_build E S job_name br ps w = (PNone, w0))
   \<and> (crumb_headers (crumb S) = Inl e
      \<longrightarrow> trigger_build E S job_name br ps w = (PNone, w))
   \<and> (crumb_headers (crumb S) = Inr hs
        \<and> net E (trace w) (trigger_post S job_name br ps hs) = Raised e
      \<longrightarrow> trigger_build E S job_name br ps w =
            (PNone, w\<lparr>trace := trace w @ [Req (trigger_post S job_name br ps hs)]\<rparr>))
   \<and> (crumb_headers (crumb S) = Inr hs
        \<and> net E (trace w) (trigger_post S job_name br ps hs) = Answered resp
        \<and> (status_code resp = 200 \<or> status_code resp = 201)
        \<and> location resp = Some loc \<and> loc \<noteq> []
        \<and> tr = trace w @ [Req (trigger_post S job_name br ps hs)]
        \<and> u = location_url S resp
        \<and> k < 30
        \<and> (\<forall>j<k. still_queued (net E (tr @ queue_events u j) (SessionGet u)))
        \<and> queue_outcome E (tr @ queue_events u k) u = Inl e
      \<longrightarrow> trigger_build E S job_name br ps w =
            (PInt (- 1), w\<lparr>trace := tr @ queue_events u k @ [Req (SessionGet u)]\<rparr>))"
proof (intro conjI impI)
  assume "trigger_build_body E S job_name br ps w = (Inl e, w0)"
  then show "trigger_build E S job_name br ps w = (PNone, w0)"
    by (simp add: trigger_build_def)
next
  assume "crumb_headers (crumb S) = Inl e"
  then show "trigger_build E S job_name br ps w = (PNone, w)"
    by (simp add: trigger_build_def trigger_build_body_def)
next
  assume "crumb_headers (crumb S) = Inr hs
        \<and> net E (trace w) (trigger_post S job_name br ps hs) = Raised e"
  then show "trigger_build E S job_name br ps w =
            (PNone, w\<lparr>trace := trace w @ [Req (trigger_post S job_name br ps hs)]\<rparr>)"
    by (simp add: trigger_build_def trigger_build_body_def session_post_def trigger_post_def)
next
  let ?w1 = "w\<lparr>trace := trace w @ [Req (trigger_post S job_name br ps hs)]\<rparr>"
  assume h: "crumb_headers (crumb S) = Inr hs
        \<and> net E (trace w) (trigger_post S job_name br ps hs) = Answered resp
        \<and> (status_code resp = 200 \<or> status_code resp = 201)
        \<and> location resp = Some loc \<and> loc \<noteq> []
        \<and> tr = trace w @ [Req (trigger_post S job_name br ps hs)]
        \<and> u = location_url S resp
        \<and> k < 30
        \<and> (\<forall>j<k. still_queued (net E (tr @ queue_events u j) (SessionGet u)))
        \<and> queue_outcome E (tr @ queue_events u k) u = Inl e"
  then have tr: "trace ?w1 = tr" and w1: "?w1\<lparr>trace := tr @ evs\<rparr> = w\<lparr>trace := tr @ evs\<rparr>" for evs
    by simp_all
  from h have posted: "crumb_headers (crumb S) = Inr hs"
      "net E (trace w) (trigger_post S job_name br ps hs) = Answered resp"
      "status_code resp = 200 \<or> status_code resp = 201"
    and loc: "location resp = Some loc" "loc \<noteq> []" and u: "u = location_url S resp"
    and k: "k < 30" "\<forall>j<k. still_queued (net E (tr @ queue_events u j) (SessionGet u))"
    and out: "queue_outcome E (tr @ queue_events u k) u = Inl e"
    by blast+
  have "queue_loop E u 30 ?w1 =
          (queue_value (queue_outcome E (trace ?w1 @ queue_events u k) u),
           ?w1\<lparr>trace := trace ?w1 @ queue_events u k @ [Req (SessionGet u)]\<rparr>)"
  proof (rule queue_loop_stops [OF k(1)])
    show "\<forall>j<k. queue_outcome E (trace ?w1 @ queue_events u j) u = Inr Continue"
      unfolding tr using k(2) by (simp add: still_queued_outcome)
    show "queue_outcome E (trace ?w1 @ queue_events u k) u \<noteq> Inr Continue"
      unfolding tr using out by simp
  qed
  then have "queue_loop E u 30 ?w1 =
          (PNone, w\<lparr>trace := tr @ queue_events u k @ [Req (SessionGet u)]\<rparr>)"
    unfolding tr w1 out by simp
  then have "get_build_number_from_queue E S resp job_name ?w1 =
          (PNone, w\<lparr>trace := tr @ queue_events u k @ [Req (SessionGet u)]\<rparr>)"
    unfolding get_build_number_from_queue_loop [OF loc] u .
  then show "trigger_build E S job_name br ps w =
            (PInt (- 1), w\<lparr>trace := tr @ queue_events u k @ [Req (SessionGet u)]\<rparr>)"
    unfolding trigger_build_posted [OF posted] by (simp add: Let_def)
qed

theorem trigger_build_catches_witness:
  "trigger_build (example_env [] (Raised RequestException)) broken_crumb_self ''a'' None None world0 =
     (PNone, world0)
   \<and> trigger_build (example_env [] (Raised RequestException)) example_self ''a'' None None world0 =
     (PNone, world0\<lparr>trace := [Req (trigger_post example_self ''a'' None None [])]\<rparr>)
   \<and> trigger_build env_queue_garbled example_self ''a'' None None world0 =
     (PInt (- 1),
      world0\<lparr>trace := [Req (trigger_post example_self ''a'' None None []),
                        Req (SessionGet example_queue_url)]\<rparr>)
   \<and> trigger_build env_queue_down example_self ''a'' None None world0 =
     (PInt (- 1),
      world0\<lparr>trace := [Req (trigger_post example_self ''a'' None None []),
                        Req (SessionGet example_queue_url), Sleep 2,
                        Req (SessionGet example_queue_url)]\<rparr>)"
proof -
  let ?down = "example_env [] (Raised RequestException)"
  let ?p = "trigger_post example_self ''a'' None None []"
  let ?u = example_queue_url
  let ?tr = "trace world0 @ [Req ?p]"
  have broken: "crumb_headers (crumb broken_crumb_self) = Inl KeyError"
    by (simp add: crumb_headers_def broken_crumb_self_def)
  have 1: "trigger_build ?down broken_crumb_self ''a'' None None world0 = (PNone, world0)"
    using trigger_build_catches
            [where S = broken_crumb_self and e = KeyError and E = ?down and job_name = "''a''"
               and br = None and ps = None and w = world0 and w0 = world0]
      broken
    by simp
  have raised: "net ?down (trace world0) ?p = Raised RequestException"
    by (simp add: example_env_def)
  have 2: "trigger_build ?down example_self ''a'' None None world0 =
             (PNone, world0\<lparr>trace := trace world0 @ [Req ?p]\<rparr>)"
    using trigger_build_catches
            [where S = example_self and e = RequestException and E = ?down and job_name = "''a''"
               and br = None and ps = None and w = world0 and w0 = world0 and hs = "[]"]
      example_crumb raised
    by simp
  have posted: "net env_queue_garbled (trace world0) ?p = Answered queued_response"
      "net env_queue_down (trace world0) ?p = Answered queued_response"
      "status_code queued_response = 200 \<or> status_code queued_response = 201"
      "location queued_response = Some ''/queue/item/7/''" "''/queue/item/7/'' \<noteq> []"
    by (simp_all add: env_queue_garbled_def env_queue_down_def example_env_def world0_def
          queued_response_def)
  have garbled: "(0::nat) < 30"
      "\<forall>j<0. still_queued (net env_queue_garbled (?tr @ queue_events ?u j) (SessionGet ?u))"
      "queue_outcome env_queue_garbled (?tr @ queue_events ?u 0) ?u = Inl AttributeError"
    by (simp_all add: env_queue_garbled_def example_env_def world0_def queue_events_def
          queue_outcome_def ok_json_def queue_decide_def response_json_def py_get_def)
  have 3: "trigger_build env_queue_garbled example_self ''a'' None None world0 =
             (PInt (- 1), world0\<lparr>trace := ?tr @ queue_events ?u 0 @ [Req (SessionGet ?u)]\<rparr>)"
    using trigger_build_catches
            [where S = example_self and e = AttributeError and E = env_queue_garbled
               and job_name = "''a''" and br = None and ps = None and w = world0 and w0 = world0 and hs = "[]"
               and resp = queued_response and loc = "''/queue/item/7/''" and tr = ?tr
               and u = ?u and k = 0]
      example_crumb posted garbled
    by (simp add: example_location_url)
  have down: "(1::nat) < 30"
      "\<forall>j<1. still_queued (net env_queue_down (?tr @ queue_events ?u j) (SessionGet ?u))"
      "queue_outcome env_queue_down (?tr @ queue_events ?u 1) ?u = Inl RequestException"
    by (simp_all add: env_queue_down_def example_env_def world0_def queue_events_def
          queue_outcome_def ok_json_def still_queued_def)
  have 4: "trigger_build env_queue_down example_self ''a'' None None world0 =
             (PInt (- 1), world0\<lparr>trace := ?tr @ queue_events ?u 1 @ [Req (SessionGet ?u)]\<rparr>)"
    using trigger_build_catches
            [where S = example_self and e = RequestException and E = env_queue_down
               and job_name = "''a''" and br = None and ps = None and w = world0 and w0 = world0 and hs = "[]"
               and resp = queued_response and loc = "''/queue/item/7/''" and tr = ?tr
               and u = ?u and k = 1]
      example_crumb posted down
    by (simp add: example_location_url)
  show ?thesis
    using 1 2 3 4 by (simp add: world0_def queue_events_def)
qed

section \<open>Build completion\<close>

lemma observed_append:
  "observed E tr (xs @ ys) = observed E tr xs @ observed E (tr @ xs) ys"
proof (induction xs arbitrary: tr)
  case Nil
  show ?case by simp
next
  case (Cons x xs)
  show ?case by (cases x) (simp_all add: Cons)
qed

lemma verdict_check:
  "(if truthy s then
      (case completion_check s of
         Inl e \<Rightarrow> Some (Inl e)
       | Inr (Some b) \<Rightarrow> Some (Inr b)
       | Inr None \<Rightarrow> None)
    else None) = verdict s"
  by (cases s)
     (auto simp: verdict_def malformed_def terminal_def succeeded_def is_object_def
        snapshot_field_def completion_check_def py_get_def split: option.splits)

lemma wait_iteration_eq:
  "wait_iteration E S job_name build_number timeout check_interval start_time w =
     (let t = clock E (trace w);
          rq = SessionGet (status_url S job_name build_number);
          s = status_of_reply (net E (trace w @ [Now t]) rq)
      in if t - start_time < of_nat timeout then
           (case verdict s of
              Some r \<Rightarrow> (Some r, w\<lparr>trace := trace w @ [Now t, Req rq]\<rparr>)
            | None \<Rightarrow>
                (None,
                 w\<lparr>trace := trace w @ [Now t, Req rq]
                        @ (if truthy s then [Now (clock E (trace w @ [Now t, Req rq]))] else [])
                        @ [Sleep check_interval]\<rparr>))
         else (Some (Inr False), w\<lparr>trace := trace w @ [Now t]\<rparr>))"
proof -
  let ?t = "clock E (trace w)"
  let ?rq = "SessionGet (status_url S job_name build_number)"
  let ?s = "status_of_reply (net E (trace w @ [Now ?t]) ?rq)"
  show ?thesis
  proof (cases "truthy ?s")
    case True
    then show ?thesis
      using verdict_check [of ?s]
      by (auto simp: wait_iteration_def time_time_def get_job_status_request time_sleep_def Let_def
               split: sum.splits option.splits)
  next
    case False
    then show ?thesis
      using verdict_check [of ?s]
      by (auto simp: wait_iteration_def time_time_def get_job_status_request time_sleep_def Let_def
               split: sum.splits option.splits)
  qed
qed

lemma wait_loop_sound:
  assumes "wait_loop E S job_name build_number timeout check_interval start_time w = Some y"
  shows "wait_post E S job_name build_number timeout start_time w y"
proof (rule wait_loop.raw_induct
         [where P = "\<lambda>E S job_name build_number timeout check_interval start_time w y.
                       wait_post E S job_name build_number timeout start_time w y",
          OF _ assms])
  fix loop :: "env \<Rightarrow> self \<Rightarrow> string \<Rightarrow> pyval \<Rightarrow> nat \<Rightarrow> nat \<Rightarrow> rat \<Rightarrow> world
     \<Rightarrow> ((exn + bool) \<times> world) option"
  fix E S job_name build_number timeout check_interval start_time w y
  assume IH: "\<And>E S job_name build_number timeout check_interval start_time w y.
        loop E S job_name build_number timeout check_interval start_time w = Some y \<Longrightarrow>
        wait_post E S job_name build_number timeout start_time w y"
    and body: "(if fst (wait_iteration E S job_name build_number timeout check_interval start_time w) = None
      then loop E S job_name build_number timeout check_interval start_time
            (snd (wait_iteration E S job_name build_number timeout check_interval start_time w))
      else Some (the (fst (wait_iteration E S job_name build_number timeout check_interval start_time w)),
             snd (wait_iteration E S job_name build_number timeout check_interval start_time w))) =
     Some y"
  let ?t = "clock E (trace w)"
  let ?rq = "SessionGet (status_url S job_name build_number)"
  let ?s = "status_of_reply (net E (trace w @ [Now ?t]) ?rq)"
  let ?it = "wait_iteration E S job_name build_number timeout check_interval start_time w"
  let ?reqs = "\<lambda>evs. \<forall>rq. Req rq \<in> set evs \<longrightarrow> rq = SessionGet (status_url S job_name build_number)"
  let ?seen = "\<lambda>tr evs. \<exists>pre t rq. evs = pre @ [Now t, Req rq] \<and> t - start_time < of_nat timeout
                    \<and> (\<forall>x \<in> set (observed E tr pre). verdict x = None)
                    \<and> verdict (status_of_reply (net E (tr @ pre @ [Now t]) rq)) = Some (fst y)"
  let ?late = "\<lambda>tr evs. \<exists>pre t. evs = pre @ [Now t] \<and> of_nat timeout \<le> t - start_time
                    \<and> fst y = Inr False
                    \<and> (\<forall>x \<in> set (observed E tr evs). verdict x = None)"
  have post: "wait_post E S job_name build_number timeout start_time w y"
    if "snd y = w\<lparr>trace := trace w @ evs\<rparr>" "?reqs evs" "?seen (trace w) evs \<or> ?late (trace w) evs"
    for evs
    unfolding wait_post_def using that by (intro exI [of _ evs]) (rule conjI, assumption, rule conjI)
  show "wait_post E S job_name build_number timeout start_time w y"
  proof (cases "?t - start_time < of_nat timeout")
    case False
    then have "?it = (Some (Inr False), w\<lparr>trace := trace w @ [Now ?t]\<rparr>)"
      by (simp add: wait_iteration_eq)
    with body have y: "y = (Inr False, w\<lparr>trace := trace w @ [Now ?t]\<rparr>)"
      by auto
    have "[Now ?t] = [] @ [Now ?t] \<and> of_nat timeout \<le> ?t - start_time
            \<and> fst y = Inr False
            \<and> (\<forall>x \<in> set (observed E (trace w) [Now ?t]). verdict x = None)"
      using False by (simp add: y)
    then have "?late (trace w) [Now ?t]"
      by (intro exI [of _ "[]"] exI [of _ ?t])
    then show ?thesis
      by (intro post [of "[Now ?t]"] disjI2) (simp_all add: y)
  next
    case True
    show ?thesis
    proof (cases "verdict ?s")
      case (Some r)
      then have "?it = (Some r, w\<lparr>trace := trace w @ [Now ?t, Req ?rq]\<rparr>)"
        using True by (simp add: wait_iteration_eq Let_def)
      with body have y: "y = (r, w\<lparr>trace := trace w @ [Now ?t, Req ?rq]\<rparr>)"
        by auto
      have "[Now ?t, Req ?rq] = [] @ [Now ?t, Req ?rq] \<and> ?t - start_time < of_nat timeout
                    \<and> (\<forall>x \<in> set (observed E (trace w) []). verdict x = None)
                    \<and> verdict (status_of_reply (net E (trace w @ [] @ [Now ?t]) ?rq)) = Some (fst y)"
        using True Some by (simp add: y)
      then have "?seen (trace w) [Now ?t, Req ?rq]"
        by (intro exI [of _ "[]"] exI [of _ ?t] exI [of _ ?rq])
      then show ?thesis
        by (intro post [of "[Now ?t, Req ?rq]"] disjI1) (simp_all add: y)
    next
      case None
      define evs1 where "evs1 = [Now ?t, Req ?rq]
                        @ (if truthy ?s then [Now (clock E (trace w @ [Now ?t, Req ?rq]))] else [])
                        @ [Sleep check_interval]"
      let ?w1 = "w\<lparr>trace := trace w @ evs1\<rparr>"
      have it: "?it = (None, ?w1)"
        using True None by (simp add: wait_iteration_eq Let_def evs1_def)
      with body have "loop E S job_name build_number timeout check_interval start_time ?w1 = Some y"
        by simp
      from IH [OF this, unfolded wait_post_def] obtain evs where
        ih: "snd y = ?w1\<lparr>trace := trace ?w1 @ evs\<rparr> \<and> ?reqs evs
               \<and> (?seen (trace ?w1) evs \<or> ?late (trace ?w1) evs)" ..
      from ih have snd: "snd y = ?w1\<lparr>trace := trace ?w1 @ evs\<rparr>"
        by (rule conjunct1)
      from ih have reqs: "?reqs evs"
        by (rule conjunct1 [OF conjunct2])
      from ih have shape: "?seen (trace ?w1) evs \<or> ?late (trace ?w1) evs"
        by (rule conjunct2 [OF conjunct2])
      have obs1: "observed E (trace w) evs1 = [?s]"
        by (simp add: evs1_def)
      have reqs1: "?reqs evs1"
        by (simp add: evs1_def)
      have a: "snd y = w\<lparr>trace := trace w @ evs1 @ evs\<rparr>"
        using snd by simp
      have b: "?reqs (evs1 @ evs)"
        using reqs reqs1 by auto
      from shape have c: "?seen (trace w) (evs1 @ evs) \<or> ?late (trace w) (evs1 @ evs)"
      proof
        assume "?seen (trace ?w1) evs"
        then obtain pre t rq where
          "evs = pre @ [Now t, Req rq] \<and> t - start_time < of_nat timeout
             \<and> (\<forall>x \<in> set (observed E (trace ?w1) pre). verdict x = None)
             \<and> verdict (status_of_reply (net E (trace ?w1 @ pre @ [Now t]) rq)) = Some (fst y)"
          by (elim exE)
        then have "evs1 @ evs = (evs1 @ pre) @ [Now t, Req rq] \<and> t - start_time < of_nat timeout
                    \<and> (\<forall>x \<in> set (observed E (trace w) (evs1 @ pre)). verdict x = None)
                    \<and> verdict (status_of_reply (net E (trace w @ (evs1 @ pre) @ [Now t]) rq)) = Some (fst y)"
          using None by (simp add: observed_append obs1)
        then have "?seen (trace w) (evs1 @ evs)"
          by (intro exI [of _ "evs1 @ pre"] exI [of _ t] exI [of _ rq])
        then show ?thesis ..
      next
        assume "?late (trace ?w1) evs"
        then obtain pre t where
          "evs = pre @ [Now t] \<and> of_nat timeout \<le> t - start_time \<and> fst y = Inr False
             \<and> (\<forall>x \<in> set (observed E (trace ?w1) evs). verdict x = None)"
          by (elim exE)
        then have "evs1 @ evs = (evs1 @ pre) @ [Now t] \<and> of_nat timeout \<le> t - start_time
                    \<and> fst y = Inr False
                    \<and> (\<forall>x \<in> set (observed E (trace w) (evs1 @ evs)). verdict x = None)"
          using None by (simp add: observed_append obs1)
        then have "?late (trace w) (evs1 @ evs)"
          by (intro exI [of _ "evs1 @ pre"] exI [of _ t])
        then show ?thesis ..
      qed
      show ?thesis
        by (rule post [OF a b c])
    qed
  qed
qed

lemma wait_loop_terminates:
  assumes "\<forall>tr. N \<le> length tr \<longrightarrow> of_nat timeout \<le> clock E tr - start_time"
  shows "\<exists>y. wait_loop E S job_name build_number timeout check_interval start_time w = Some y"
proof (induction "N - length (trace w)" arbitrary: w rule: less_induct)
  case less
  let ?t = "clock E (trace w)"
  let ?it = "wait_iteration E S job_name build_number timeout check_interval start_time w"
  show ?case
  proof (cases "fst ?it")
    case (Some r)
    then show ?thesis
      by (subst wait_loop.simps) simp
  next
    case None
    then have early: "?t - start_time < of_nat timeout"
      by (auto simp: wait_iteration_eq Let_def split: if_splits)
    then have short: "length (trace w) < N"
      using assms by (meson not_le_imp_less leD)
    from None early have "length (trace w) < length (trace (snd ?it))"
      by (auto simp: wait_iteration_eq Let_def split: option.splits)
    with short have "N - length (trace (snd ?it)) < N - length (trace w)"
      by simp
    from less [OF this] obtain y where
      "wait_loop E S job_name build_number timeout check_interval start_time (snd ?it) = Some y"
      by blast
    then show ?thesis
      using None by (subst wait_loop.simps) simp
  qed
qed

lemma verdict_None: "verdict s = None \<longleftrightarrow> \<not> terminal s \<and> \<not> malformed s"
  by (simp add: verdict_def)

lemma verdict_Some:
  "verdict s = Some r \<Longrightarrow>
     (r = Inr True \<longleftrightarrow> succeeded s) \<and> (terminal s \<and> \<not> succeeded s \<longrightarrow> r = Inr False)
     \<and> (terminal s \<or> malformed s)"
  by (auto simp: verdict_def terminal_def malformed_def succeeded_def split: if_splits)

lemma wait_for_build_completion_loop:
  "wait_for_build_completion E S job_name build_number w =
     wait_loop E S job_name build_number
       (case timeout_seconds (config S) of None \<Rightarrow> 1800 | Some n \<Rightarrow> n)
       (case check_interval_seconds (config S) of None \<Rightarrow> 30 | Some n \<Rightarrow> n)
       (clock E (trace w)) (w\<lparr>trace := trace w @ [Now (clock E (trace w))]\<rparr>)"
  by (simp add: wait_for_build_completion_def time_time_def Let_def)

lemma wait_loop_continue:
  "fst (wait_iteration E S job_name build_number timeout check_interval start_time w) = None
   \<Longrightarrow> wait_loop E S job_name build_number timeout check_interval start_time w =
       wait_loop E S job_name build_number timeout check_interval start_time
         (snd (wait_iteration E S job_name build_number timeout check_interval start_time w))"
  by (subst wait_loop.simps) simp

lemma wait_loop_return:
  "fst (wait_iteration E S job_name build_number timeout check_interval start_time w) = Some r
   \<Longrightarrow> wait_loop E S job_name build_number timeout check_interval start_time w =
       Some (r, snd (wait_iteration E S job_name build_number timeout check_interval start_time w))"
  by (subst wait_loop.simps) simp

lemma example_status_url:
  "status_url patient_self ''a'' (PInt 42) = example_build_url"
  "status_url example_self ''a'' (PInt 42) = example_build_url"
  by (simp_all add: status_url_def patient_self_def example_self_def example_config_def
        rstrip_slash_def example_build_url_def)

lemma example_clock: "clock (example_env rs d) tr = of_nat (length tr)"
  by (simp add: example_env_def)

lemma example_net:
  "net (example_env rs d) tr rq =
     (if length (filter is_request tr) < length rs then rs ! length (filter is_request tr) else d)"
  by (simp add: example_env_def Let_def)

lemma example_verdicts:
  "verdict (status_of_reply (ok_json building_snapshot)) = None"
  "verdict (status_of_reply (status_only c)) = None"
  "verdict (status_of_reply (ok_json (finished_snapshot ''SUCCESS''))) = Some (Inr True)"
  "verdict (status_of_reply (ok_json (finished_snapshot ''FAILURE''))) = Some (Inr False)"
  "truthy (status_of_reply (ok_json building_snapshot))"
  "\<not> truthy (status_of_reply (status_only c))"
  by (simp_all add: verdict_def status_of_reply_def ok_json_def status_only_def
        building_snapshot_def finished_snapshot_def malformed_def terminal_def succeeded_def
        is_object_def snapshot_field_def)

lemma example_settings:
  "timeout_seconds (config patient_self) = Some 60"
  "check_interval_seconds (config patient_self) = Some 2"
  "timeout_seconds (config example_self) = Some 5"
  "check_interval_seconds (config example_self) = Some 2"
  "trace world0 = []"
  by (simp_all add: patient_self_def example_self_def example_config_def world0_def)

lemma status_url_latest:
  "\<not> truthy build_number \<or> build_number = PInt (- 1)
   \<Longrightarrow> status_url S job_name build_number =
       JobLastBuildApi (rstrip_slash (jenkins_url (config S))) job_name"
  by (auto simp: status_url_def)

text \<open>
  Claim C4. Let the clock pass the deadline \<open>start + timeout\<close> for good once the history is
  long enough (\<open>start\<close> being the reading taken on entry). Then
  \<^verbatim>\<open>wait_for_build_completion\<close> returns, and with \<open>evs\<close> the effects after the first reading:
  it returns True if and only if one of the statuses it observed is a terminal snapshot
  with result \<^verbatim>\<open>SUCCESS\<close>, and then that status answers its last request, sent right after a
  clock reading before the deadline; if it observed a terminal snapshot with another
  result, it returns False; and if it observed no terminal snapshot (and no status that is
  not an object), it returns False after a clock reading past the deadline.
\<close>

theorem wait_for_build_completion_verdict:
  assumes "timeout = (case timeout_seconds (config S) of None \<Rightarrow> 1800 | Some n \<Rightarrow> n)"
    and "start = clock E (trace w)"
    and "\<forall>tr. N \<le> length tr \<longrightarrow> of_nat timeout \<le> clock E tr - start"
  shows "\<exists>r w' evs.
           wait_for_build_completion E S job_name build_number w = Some (r, w')
         \<and> w' = w\<lparr>trace := trace w @ Now start # evs\<rparr>
         \<and> (r = Inr True \<longleftrightarrow> (\<exists>s \<in> set (observed E (trace w @ [Now start]) evs). succeeded s))
         \<and> (r = Inr True \<longrightarrow>
               (\<exists>pre t rq. evs = pre @ [Now t, Req rq] \<and> t - start < of_nat timeout
                  \<and> succeeded (status_of_reply (net E (trace w @ Now start # pre @ [Now t]) rq))))
         \<and> ((\<exists>s \<in> set (observed E (trace w @ [Now start]) evs). terminal s \<and> \<not> succeeded s)
               \<longrightarrow> r = Inr False)
         \<and> ((\<forall>s \<in> set (observed E (trace w @ [Now start]) evs). \<not> terminal s \<and> \<not> malformed s)
               \<longrightarrow> r = Inr False
                   \<and> (\<exists>pre t. evs = pre @ [Now t] \<and> of_nat timeout \<le> t - start))"
proof -
  let ?ci = "case check_interval_seconds (config S) of None \<Rightarrow> 30 | Some n \<Rightarrow> n"
  let ?w0 = "w\<lparr>trace := trace w @ [Now start]\<rparr>"
  have loop: "wait_for_build_completion E S job_name build_number w =
                wait_loop E S job_name build_number timeout ?ci start ?w0"
    by (simp add: wait_for_build_completion_loop assms(1,2))
  from wait_loop_terminates [OF assms(3)] obtain y where
    y: "wait_loop E S job_name build_number timeout ?ci start ?w0 = Some y"
    by blast
  from wait_loop_sound [OF y, unfolded wait_post_def] obtain evs where
    post: "snd y = ?w0\<lparr>trace := trace ?w0 @ evs\<rparr>
         \<and> (\<forall>rq. Req rq \<in> set evs \<longrightarrow> rq = SessionGet (status_url S job_name build_number))
         \<and> ((\<exists>pre t rq. evs = pre @ [Now t, Req rq] \<and> t - start < of_nat timeout
                    \<and> (\<forall>x \<in> set (observed E (trace ?w0) pre). verdict x = None)
                    \<and> verdict (status_of_reply (net E (trace ?w0 @ pre @ [Now t]) rq)) = Some (fst y))
               \<or> (\<exists>pre t. evs = pre @ [Now t] \<and> of_nat timeout \<le> t - start
                    \<and> fst y = Inr False
                    \<and> (\<forall>x \<in> set (observed E (trace ?w0) evs). verdict x = None)))" ..
  let ?obs = "observed E (trace w @ [Now start]) evs"
  have tr0: "trace ?w0 = trace w @ [Now start]" by simp
  from post have w': "snd y = w\<lparr>trace := trace w @ Now start # evs\<rparr>"
    by simp
  from post have shape:
    "(\<exists>pre t rq. evs = pre @ [Now t, Req rq] \<and> t - start < of_nat timeout
          \<and> (\<forall>x \<in> set (observed E (trace w @ [Now start]) pre). verdict x = None)
          \<and> verdict (status_of_reply (net E (trace w @ Now start # pre @ [Now t]) rq)) = Some (fst y))
     \<or> (\<exists>pre t. evs = pre @ [Now t] \<and> of_nat timeout \<le> t - start
          \<and> fst y = Inr False
          \<and> (\<forall>x \<in> set ?obs. verdict x = None))"
    unfolding tr0 by simp
  have facts:
    "(fst y = Inr True \<longleftrightarrow> (\<exists>s \<in> set ?obs. succeeded s))
     \<and> (fst y = Inr True \<longrightarrow>
           (\<exists>pre t rq. evs = pre @ [Now t, Req rq] \<and> t - start < of_nat timeout
              \<and> succeeded (status_of_reply (net E (trace w @ Now start # pre @ [Now t]) rq))))
     \<and> ((\<exists>s \<in> set ?obs. terminal s \<and> \<not> succeeded s) \<longrightarrow> fst y = Inr False)
     \<and> ((\<forall>s \<in> set ?obs. \<not> terminal s \<and> \<not> malformed s)
           \<longrightarrow> fst y = Inr False \<and> (\<exists>pre t. evs = pre @ [Now t] \<and> of_nat timeout \<le> t - start))"
    using shape
  proof
    assume "\<exists>pre t rq. evs = pre @ [Now t, Req rq] \<and> t - start < of_nat timeout
          \<and> (\<forall>x \<in> set (observed E (trace w @ [Now start]) pre). verdict x = None)
          \<and> verdict (status_of_reply (net E (trace w @ Now start # pre @ [Now t]) rq)) = Some (fst y)"
    then obtain pre t rq where evs: "evs = pre @ [Now t, Req rq]" and t: "t - start < of_nat timeout"
      and quiet: "\<forall>x \<in> set (observed E (trace w @ [Now start]) pre). verdict x = None"
      and last: "verdict (status_of_reply (net E (trace w @ Now start # pre @ [Now t]) rq)) = Some (fst y)"
      by blast
    let ?s = "status_of_reply (net E (trace w @ Now start # pre @ [Now t]) rq)"
    have obs: "?obs = observed E (trace w @ [Now start]) pre @ [?s]"
      by (simp add: evs observed_append)
    note v = verdict_Some [OF last]
    have quiet': "\<not> terminal x \<and> \<not> malformed x \<and> \<not> succeeded x"
      if "x \<in> set (observed E (trace w @ [Now start]) pre)" for x
      using quiet that by (auto simp: verdict_None succeeded_def)
    have 1: "fst y = Inr True \<longleftrightarrow> (\<exists>s \<in> set ?obs. succeeded s)"
      using v quiet' by (auto simp: obs)
    have 2: "fst y = Inr True \<longrightarrow>
           (\<exists>pre t rq. evs = pre @ [Now t, Req rq] \<and> t - start < of_nat timeout
              \<and> succeeded (status_of_reply (net E (trace w @ Now start # pre @ [Now t]) rq)))"
      using v evs t by blast
    have 3: "(\<exists>s \<in> set ?obs. terminal s \<and> \<not> succeeded s) \<longrightarrow> fst y = Inr False"
      using v quiet' by (auto simp: obs)
    have 4: "(\<forall>s \<in> set ?obs. \<not> terminal s \<and> \<not> malformed s)
           \<longrightarrow> fst y = Inr False \<and> (\<exists>pre t. evs = pre @ [Now t] \<and> of_nat timeout \<le> t - start)"
      using v by (auto simp: obs)
    show ?thesis using 1 2 3 4 by blast
  next
    assume "\<exists>pre t. evs = pre @ [Now t] \<and> of_nat timeout \<le> t - start
          \<and> fst y = Inr False
          \<and> (\<forall>x \<in> set ?obs. verdict x = None)"
    then obtain pre t where evs: "evs = pre @ [Now t]" and t: "of_nat timeout \<le> t - start"
      and r: "fst y = Inr False" and quiet: "\<forall>x \<in> set ?obs. verdict x = None"
      by blast
    have quiet': "\<not> terminal x \<and> \<not> malformed x \<and> \<not> succeeded x" if "x \<in> set ?obs" for x
      using quiet that by (auto simp: verdict_None succeeded_def)
    have 1: "fst y = Inr True \<longleftrightarrow> (\<exists>s \<in> set ?obs. succeeded s)"
      using r quiet' by auto
    have 4: "\<exists>pre t. evs = pre @ [Now t] \<and> of_nat timeout \<le> t - start"
      using evs t by blast
    show ?thesis using 1 4 r by simp
  qed
  have run: "wait_for_build_completion E S job_name build_number w = Some (fst y, snd y)"
    by (simp add: loop y)
  show ?thesis
    by (rule exI [of _ "fst y"], rule exI [of _ "snd y"], rule exI [of _ evs])
       (rule conjI [OF run conjI [OF w' facts]])
qed

theorem wait_for_build_completion_verdict_witness:
  "wait_for_build_completion (env_builds ''SUCCESS'') patient_self ''a'' (PInt 42) world0 =
     Some (Inr True,
       world0\<lparr>trace :=
         [Now 0,
          Now 1, Req (SessionGet example_build_url), Now 3, Sleep 2,
          Now 5, Req (SessionGet example_build_url), Sleep 2,
          Now 8, Req (SessionGet example_build_url), Now 10, Sleep 2,
          Now 12, Req (SessionGet example_build_url)]\<rparr>)
   \<and> (\<exists>s \<in> set (observed (env_builds ''SUCCESS'') [Now 0]
                     [Now 1, Req (SessionGet example_build_url), Now 3, Sleep 2,
                      Now 5, Req (SessionGet example_build_url), Sleep 2,
                      Now 8, Req (SessionGet example_build_url), Now 10, Sleep 2,
                      Now 12, Req (SessionGet example_build_url)]). succeeded s)
   \<and> wait_for_build_completion (env_builds ''FAILURE'') patient_self ''a'' (PInt 42) world0 =
     Some (Inr False,
       world0\<lparr>trace :=
         [Now 0,
          Now 1, Req (SessionGet example_build_url), Now 3, Sleep 2,
          Now 5, Req (SessionGet example_build_url), Sleep 2,
          Now 8, Req (SessionGet example_build_url), Now 10, Sleep 2,
          Now 12, Req (SessionGet example_build_url)]\<rparr>)
   \<and> wait_for_build_completion (example_env [] (ok_json building_snapshot)) example_self ''a''
         (PInt 42) world0 =
     Some (Inr False,
       world0\<lparr>trace :=
         [Now 0, Now 1, Req (SessionGet example_build_url), Now 3, Sleep 2, Now 5]\<rparr>)"
proof -
  let ?E = "env_builds ''SUCCESS''"
  let ?evs = "[Now 1, Req (SessionGet example_build_url), Now 3, Sleep 2,
               Now 5, Req (SessionGet example_build_url), Sleep 2,
               Now 8, Req (SessionGet example_build_url), Now 10, Sleep 2,
               Now 12, Req (SessionGet example_build_url)]"
  have success:
    "wait_for_build_completion ?E patient_self ''a'' (PInt 42) world0 =
       Some (Inr True, world0\<lparr>trace := Now 0 # ?evs\<rparr>)"
    by (simp add: wait_for_build_completion_loop wait_loop_continue wait_loop_return
          wait_iteration_eq example_status_url example_clock example_net example_verdicts
          env_builds_def example_settings Let_def)
  have failure:
    "wait_for_build_completion (env_builds ''FAILURE'') patient_self ''a'' (PInt 42) world0 =
       Some (Inr False, world0\<lparr>trace := Now 0 # ?evs\<rparr>)"
    by (simp add: wait_for_build_completion_loop wait_loop_continue wait_loop_return
          wait_iteration_eq example_status_url example_clock example_net example_verdicts
          env_builds_def example_settings Let_def)
  have late:
    "wait_for_build_completion (example_env [] (ok_json building_snapshot)) example_self ''a''
         (PInt 42) world0 =
     Some (Inr False,
       world0\<lparr>trace :=
         [Now 0, Now 1, Req (SessionGet example_build_url), Now 3, Sleep 2, Now 5]\<rparr>)"
    by (simp add: wait_for_build_completion_loop wait_loop_continue wait_loop_return
          wait_iteration_eq example_status_url example_clock example_net example_verdicts
          example_settings Let_def)
  have timeout: "60 = (case timeout_seconds (config patient_self) of None \<Rightarrow> 1800 | Some n \<Rightarrow> n)"
    and start: "0 = clock ?E (trace world0)"
    and passes: "\<forall>tr. 60 \<le> length tr \<longrightarrow> of_nat 60 \<le> clock ?E tr - 0"
    by (simp_all add: example_settings env_builds_def example_clock)
  from wait_for_build_completion_verdict [OF timeout start passes, of "''a''" "PInt 42"]
  obtain r w' evs where
    run: "wait_for_build_completion ?E patient_self ''a'' (PInt 42) world0 = Some (r, w')"
    and w': "w' = world0\<lparr>trace := trace world0 @ Now 0 # evs\<rparr>"
    and iff: "r = Inr True \<longleftrightarrow> (\<exists>s \<in> set (observed ?E (trace world0 @ [Now 0]) evs). succeeded s)"
    by blast
  from run success w' have "r = Inr True" and "evs = ?evs"
    by (simp_all add: world0_def)
  with iff have seen: "\<exists>s \<in> set (observed ?E [Now 0] ?evs). succeeded s"
    by (simp add: example_settings)
  show ?thesis
    using success seen failure late by simp
qed

text \<open>
  Claim C8. When \<^verbatim>\<open>build_number\<close> is falsy (None, 0, an empty string, ...) or -1,
  \<^verbatim>\<open>get_job_status\<close> sends its GET to the \<^verbatim>\<open>lastBuild\<close> URL of the job, and so does every
  request of a \<^verbatim>\<open>wait_for_build_completion\<close> that returns.
\<close>

theorem get_job_status_latest_build:
  assumes "\<not> truthy build_number \<or> build_number = PInt (- 1)"
    and "u = JobLastBuildApi (rstrip_slash (jenkins_url (config S))) job_name"
  shows "get_job_status E S job_name build_number w =
           (status_of_reply (net E (trace w) (SessionGet u)),
            w\<lparr>trace := trace w @ [Req (SessionGet u)]\<rparr>)
       \<and> (\<forall>r w'. wait_for_build_completion E S job_name build_number w = Some (r, w')
             \<longrightarrow> (\<exists>evs. w' = w\<lparr>trace := trace w @ evs\<rparr>
                    \<and> (\<forall>rq. Req rq \<in> set evs \<longrightarrow> rq = SessionGet u)))"
proof (intro conjI allI impI)
  have url: "status_url S job_name build_number = u"
    using assms by (simp add: status_url_latest)
  show "get_job_status E S job_name build_number w =
           (status_of_reply (net E (trace w) (SessionGet u)),
            w\<lparr>trace := trace w @ [Req (SessionGet u)]\<rparr>)"
    by (simp add: get_job_status_request url)
  fix r w'
  let ?start = "clock E (trace w)"
  let ?w0 = "w\<lparr>trace := trace w @ [Now ?start]\<rparr>"
  assume "wait_for_build_completion E S job_name build_number w = Some (r, w')"
  then have "wait_post E S job_name build_number
               (case timeout_seconds (config S) of None \<Rightarrow> 1800 | Some n \<Rightarrow> n) ?start ?w0 (r, w')"
    unfolding wait_for_build_completion_loop by (rule wait_loop_sound)
  then obtain evs where
    "snd (r, w') = ?w0\<lparr>trace := trace ?w0 @ evs\<rparr>
     \<and> (\<forall>rq. Req rq \<in> set evs \<longrightarrow> rq = SessionGet (status_url S job_name build_number))"
    unfolding wait_post_def by blast
  then have "w' = w\<lparr>trace := trace w @ Now ?start # evs\<rparr>
     \<and> (\<forall>rq. Req rq \<in> set (Now ?start # evs) \<longrightarrow> rq = SessionGet u)"
    by (simp add: url)
  then show "\<exists>evs. w' = w\<lparr>trace := trace w @ evs\<rparr> \<and> (\<forall>rq. Req rq \<in> set evs \<longrightarrow> rq = SessionGet u)"
    by (rule exI [of _ "Now ?start # evs"])
qed

theorem get_job_status_latest_build_witness:
  "snd (get_job_status (env_builds ''SUCCESS'') example_self ''a'' (PInt 0) world0) =
     world0\<lparr>trace := [Req (SessionGet (JobLastBuildApi ''http://ci'' ''a''))]\<rparr>
   \<and> snd (get_job_status (env_builds ''SUCCESS'') example_self ''a'' PNone world0) =
     world0\<lparr>trace := [Req (SessionGet (JobLastBuildApi ''http://ci'' ''a''))]\<rparr>
   \<and> snd (get_job_status (env_builds ''SUCCESS'') example_self ''a'' (PInt (- 1)) world0) =
     world0\<lparr>trace := [Req (SessionGet (JobLastBuildApi ''http://ci'' ''a''))]\<rparr>
   \<and> snd (get_job_status (env_builds ''SUCCESS'') example_self ''a'' (PStr []) world0) =
     world0\<lparr>trace := [Req (SessionGet (JobLastBuildApi ''http://ci'' ''a''))]\<rparr>"
proof -
  have u: "JobLastBuildApi ''http://ci'' ''a'' =
             JobLastBuildApi (rstrip_slash (jenkins_url (config example_self))) ''a''"
    by (simp add: example_self_def example_config_def rstrip_slash_def)
  have falsy: "\<not> truthy (PInt 0) \<or> PInt 0 = PInt (- 1)" "\<not> truthy PNone \<or> PNone = PInt (- 1)"
    "\<not> truthy (PInt (- 1)) \<or> PInt (- 1) = PInt (- 1)" "\<not> truthy (PStr []) \<or> PStr [] = PInt (- 1)"
    by simp_all
  show ?thesis
    using get_job_status_latest_build [OF falsy(1) u, of "env_builds ''SUCCESS''" world0]
      get_job_status_latest_build [OF falsy(2) u, of "env_builds ''SUCCESS''" world0]
      get_job_status_latest_build [OF falsy(3) u, of "env_builds ''SUCCESS''" world0]
      get_job_status_latest_build [OF falsy(4) u, of "env_builds ''SUCCESS''" world0]
    by (simp add: example_settings)
qed

section \<open>Workflow orchestrator\<close>

lemma trigger_build_frame:
  "\<exists>evs. snd (trigger_build E S job_name br ps w) = w\<lparr>trace := trace w @ evs\<rparr>"
proof (cases "crumb_headers (crumb S)")
  case (Inl e)
  then show ?thesis
    by (intro exI [of _ "[]"]) (simp add: trigger_build_def trigger_build_body_def)
next
  case (Inr hs)
  let ?p = "trigger_post S job_name br ps hs"
  let ?w1 = "w\<lparr>trace := trace w @ [Req ?p]\<rparr>"
  show ?thesis
  proof (cases "net E (trace w) ?p")
    case (Raised e)
    then show ?thesis
      using Inr
      by (intro exI [of _ "[Req ?p]"])
         (simp add: trigger_build_def trigger_build_body_def session_post_def trigger_post_def)
  next
    case (Answered resp)
    show ?thesis
    proof (cases "status_code resp = 200 \<or> status_code resp = 201")
      case False
      then show ?thesis
        using Inr Answered
        by (intro exI [of _ "[Req ?p]"])
           (simp add: trigger_build_def trigger_build_body_def session_post_def trigger_post_def)
    next
      case True
      have "\<exists>evs. snd (get_build_number_from_queue E S resp job_name ?w1) = ?w1\<lparr>trace := trace ?w1 @ evs\<rparr>"
      proof (cases "location resp = None \<or> location resp = Some []")
        case True
        then show ?thesis
          by (intro exI [of _ "[]"]) (auto simp: get_build_number_from_queue_def)
      next
        case False
        then obtain loc where "location resp = Some loc" "loc \<noteq> []" by auto
        then show ?thesis
          using queue_loop_bound [of E "location_url S resp" 30 ?w1]
          by (auto simp: get_build_number_from_queue_loop)
      qed
      then obtain evs where
        "snd (get_build_number_from_queue E S resp job_name ?w1) = ?w1\<lparr>trace := trace ?w1 @ evs\<rparr>"
        by blast
      then show ?thesis
        by (intro exI [of _ "Req ?p # evs"])
           (simp add: trigger_build_posted [OF Inr Answered True] Let_def)
    qed
  qed
qed

lemma poll_interface_frame:
  "\<exists>evs. snd (poll_interface E S interface_url w) = w\<lparr>trace := trace w @ evs\<rparr>"
proof (cases "case interface_url of
              Some y \<Rightarrow> if y \<noteq> [] then Some y else polling_url (config S)
            | None \<Rightarrow> polling_url (config S)")
  case None
  then show ?thesis
    by (intro exI [of _ "[]"]) (simp add: poll_interface_def)
next
  case (Some u)
  from poll_loop_bound
    [of E u "case max_attempts (config S) of None \<Rightarrow> 60 | Some n \<Rightarrow> n"
        "case interval_seconds (config S) of None \<Rightarrow> 30 | Some n \<Rightarrow> n"
        "case expected_status_code (config S) of None \<Rightarrow> 200 | Some c \<Rightarrow> c" 1 w]
  show ?thesis
    using Some by (auto simp: poll_interface_def Let_def split: prod.splits)
qed

lemma wait_for_build_completion_frame:
  assumes "wait_for_build_completion E S job_name build_number w = Some (r, w')"
  shows "\<exists>evs. w' = w\<lparr>trace := trace w @ evs\<rparr>"
proof -
  let ?start = "clock E (trace w)"
  let ?w0 = "w\<lparr>trace := trace w @ [Now ?start]\<rparr>"
  from assms have "wait_post E S job_name build_number
               (case timeout_seconds (config S) of None \<Rightarrow> 1800 | Some n \<Rightarrow> n) ?start ?w0 (r, w')"
    unfolding wait_for_build_completion_loop by (rule wait_loop_sound)
  then obtain evs where "snd (r, w') = ?w0\<lparr>trace := trace ?w0 @ evs\<rparr>"
    unfolding wait_post_def by blast
  then have "w' = w\<lparr>trace := trace w @ Now ?start # evs\<rparr>"
    by simp
  then show ?thesis ..
qed

lemma wait_for_build_completion_returns:
  assumes "\<forall>T. \<exists>N. \<forall>tr. N \<le> length tr \<longrightarrow> T \<le> clock E tr"
  shows "\<exists>r w'. wait_for_build_completion E S job_name build_number w = Some (r, w')"
proof -
  let ?timeout = "case timeout_seconds (config S) of None \<Rightarrow> 1800 | Some n \<Rightarrow> n"
  let ?start = "clock E (trace w)"
  from assms obtain N where "\<forall>tr. N \<le> length tr \<longrightarrow> of_nat ?timeout + ?start \<le> clock E tr"
    by blast
  then have "\<forall>tr. N \<le> length tr \<longrightarrow> of_nat ?timeout \<le> clock E tr - ?start"
    by (simp add: le_diff_eq)
  from wait_loop_terminates [OF this] show ?thesis
    unfolding wait_for_build_completion_loop by auto
qed

lemma history_simps:
  "history (remember s w) = history w @ [s]"
  "history (countdown n w) = history w"
  "trace (remember s w) = trace w"
  by (simp_all add: remember_def countdown_def)

lemma workflow_step_shape:
  assumes "\<forall>T. \<exists>N. \<forall>tr. N \<le> length tr \<longrightarrow> T \<le> clock E tr"
  shows "\<exists>fl w' hs. workflow_step E S js br polling wait_time i j w = Some (fl, w')
           \<and> history w' = history w @ hs \<and> step_shape (length js) polling i hs fl"
proof -
  let ?ps = "if parameters j \<noteq> [] then Some (parameters j) else None"
  let ?t = "trigger_build E S (name j) (Some br) ?ps w"
  obtain v w1 where t: "?t = (v, w1)" by (cases ?t)
  from trigger_build_frame [of E S "name j" "Some br" ?ps w] t
  have h1: "history w1 = history w" by auto
  show ?thesis
  proof (cases "v = PNone")
    case True
    then have "workflow_step E S js br polling wait_time i j w =
                 Some (Done (Inr False), remember (Triggered i PNone) w1)"
      by (simp add: workflow_step_def t)
    moreover have "step_shape (length js) polling i [Triggered i PNone] (Done (Inr False))"
      by (simp add: step_shape_def)
    ultimately show ?thesis
      using h1 by (intro exI [of _ "Done (Inr False)"] exI [of _ "remember (Triggered i PNone) w1"]
                     exI [of _ "[Triggered i PNone]"]) (simp add: history_simps)
  next
    case False
    let ?w2 = "(remember (Triggered i v) w1)\<lparr>current_job := Some (name j), current_build_number := v\<rparr>"
    from wait_for_build_completion_returns [OF assms, of S "name j" v ?w2]
    obtain x w3 where wt: "wait_for_build_completion E S (name j) v ?w2 = Some (x, w3)"
      by blast
    from wait_for_build_completion_frame [OF wt]
    have h3: "history w3 = history w @ [Triggered i v]"
      using h1 by (auto simp: history_simps)
    show ?thesis
    proof (cases "x = Inr True")
      case False
      then have "workflow_step E S js br polling wait_time i j w =
                   Some (Done (fallout x), remember (Waited i x) w3)"
        using \<open>v \<noteq> PNone\<close> by (cases x) (auto simp: workflow_step_def t wt fallout_def)
      moreover have "step_shape (length js) polling i [Triggered i v, Waited i x] (Done (fallout x))"
        using False \<open>v \<noteq> PNone\<close> by (auto simp: step_shape_def)
      ultimately show ?thesis
        using h3 by (intro exI [of _ "Done (fallout x)"] exI [of _ "remember (Waited i x) w3"]
                       exI [of _ "[Triggered i v, Waited i x]"]) (simp add: history_simps)
    next
      case True
      let ?w4 = "(remember (Waited i (Inr True)) w3)\<lparr>current_job := None, current_build_number := PNone\<rparr>"
      have h4: "history ?w4 = history w @ [Triggered i v, Waited i (Inr True)]"
        using h3 by (simp add: history_simps)
      have more: "(int i < int (length js) - 1) = (Suc i < length js)" by auto
      show ?thesis
      proof (cases "Suc i < length js \<and> i = 0 \<and> polling")
        case False
        then have "workflow_step E S js br polling wait_time i j w =
                     Some (Next, if Suc i < length js then countdown wait_time ?w4 else ?w4)"
          using \<open>v \<noteq> PNone\<close> True by (auto simp: workflow_step_def t wt more Let_def)
        moreover have "step_shape (length js) polling i [Triggered i v, Waited i (Inr True)] Next"
          using False \<open>v \<noteq> PNone\<close> by (auto simp: step_shape_def)
        ultimately show ?thesis
          using h4
          by (intro exI [of _ Next] exI [of _ "if Suc i < length js then countdown wait_time ?w4 else ?w4"]
                exI [of _ "[Triggered i v, Waited i (Inr True)]"]) (simp add: history_simps)
      next
        case poll: True
        let ?p = "poll_interface E S None ?w4"
        obtain y w5 where p: "?p = (y, w5)" by (cases ?p)
        from poll_interface_frame [of E S None ?w4] p
        have h5: "history w5 = history w @ [Triggered i v, Waited i (Inr True)]"
          using h4 by auto
        show ?thesis
        proof (cases "y = Inr True")
          case False
          then have "workflow_step E S js br polling wait_time i j w =
                       Some (Done (fallout y), remember (Polled i y) w5)"
            using \<open>v \<noteq> PNone\<close> True poll t wt p
            by (cases y) (auto simp: workflow_step_def more Let_def fallout_def)
          moreover have "step_shape (length js) polling i
                           [Triggered i v, Waited i (Inr True), Polled i y] (Done (fallout y))"
            using False poll \<open>v \<noteq> PNone\<close> by (auto simp: step_shape_def)
          ultimately show ?thesis
            using h5
            by (intro exI [of _ "Done (fallout y)"] exI [of _ "remember (Polled i y) w5"]
                  exI [of _ "[Triggered i v, Waited i (Inr True), Polled i y]"])
               (simp add: history_simps)
        next
          case y: True
          then have "workflow_step E S js br polling wait_time i j w =
                       Some (Next, countdown wait_time (remember (Polled i (Inr True)) w5))"
            using \<open>v \<noteq> PNone\<close> True poll t wt p
            by (auto simp: workflow_step_def more Let_def)
          moreover have "step_shape (length js) polling i
                           [Triggered i v, Waited i (Inr True), Polled i (Inr True)] Next"
            using poll \<open>v \<noteq> PNone\<close> by (auto simp: step_shape_def)
          ultimately show ?thesis
            using h5
            by (intro exI [of _ Next] exI [of _ "countdown wait_time (remember (Polled i (Inr True)) w5)"]
                  exI [of _ "[Triggered i v, Waited i (Inr True), Polled i (Inr True)]"])
               (simp add: history_simps)
        qed
      qed
    qed
  qed
qed

lemma workflow_loop_shape:
  assumes "\<forall>T. \<exists>N. \<forall>tr. N \<le> length tr \<longrightarrow> T \<le> clock E tr"
  shows "\<exists>r w' hs. workflow_loop E S js br polling wait_time i rest w = Some (r, w')
           \<and> history w' = history w @ hs \<and> run_shape (length js) polling i (length rest) hs r"
proof (induction rest arbitrary: i w)
  case Nil
  show ?case
    by (intro exI [of _ "Inr True"] exI [of _ w] exI [of _ "[]"]) (simp add: run_shape.finished)
next
  case (Cons j rest)
  from workflow_step_shape [OF assms, of S js br polling wait_time i j w]
  obtain fl w1 hs where step: "workflow_step E S js br polling wait_time i j w = Some (fl, w1)"
    and h1: "history w1 = history w @ hs" and shape: "step_shape (length js) polling i hs fl"
    by blast
  show ?case
  proof (cases fl)
    case (Done r)
    then have "workflow_loop E S js br polling wait_time i (j # rest) w = Some (r, w1)"
      by (simp add: step)
    moreover have "run_shape (length js) polling i (length (j # rest)) hs r"
      using shape Done by (simp add: run_shape.stopped)
    ultimately show ?thesis
      using h1 by blast
  next
    case Next
    from Cons [of "Suc i" w1] obtain r w' hs' where
      loop: "workflow_loop E S js br polling wait_time (Suc i) rest w1 = Some (r, w')"
      and h': "history w' = history w1 @ hs'"
      and shape': "run_shape (length js) polling (Suc i) (length rest) hs' r"
      by blast
    have "workflow_loop E S js br polling wait_time i (j # rest) w = Some (r, w')"
      by (simp add: step Next loop)
    moreover have "history w' = history w @ hs @ hs'"
      by (simp add: h' h1)
    moreover have "run_shape (length js) polling i (length (j # rest)) (hs @ hs') r"
      using shape shape' Next by (simp add: run_shape.went_on)
    ultimately show ?thesis
      by blast
  qed
qed

lemma step_shape_index: "step_shape n p i hs fl \<Longrightarrow> s \<in> set hs \<Longrightarrow> step_index s = i"
  by (auto simp: step_shape_def)

lemma run_shape_index: "run_shape n p i m hs r \<Longrightarrow> s \<in> set hs \<Longrightarrow> i \<le> step_index s"
proof (induction arbitrary: s rule: run_shape.induct)
  case (finished i)
  then show ?case by simp
next
  case (stopped i hs r m)
  then show ?case by (simp add: step_shape_index)
next
  case (went_on i hs m hs' r)
  then show ?case
    by (auto simp: step_shape_index dest: Suc_leD)
qed

lemma run_shape_failure:
  "run_shape n p i m hs r
   \<Longrightarrow> Triggered k PNone \<in> set hs \<or> Waited k (Inr False) \<in> set hs
   \<Longrightarrow> r = Inr False \<and> (\<forall>j>k. \<forall>v. Triggered j v \<notin> set hs)"
proof (induction rule: run_shape.induct)
  case (finished i)
  then show ?case by simp
next
  case (stopped i hs r m)
  then show ?case
    by (auto simp: step_shape_def fallout_def)
next
  case (went_on i hs m hs' r)
  from went_on.hyps(1) have here: "Triggered k PNone \<notin> set hs" "Waited k (Inr False) \<notin> set hs"
    by (auto simp: step_shape_def)
  with went_on.prems have there: "Triggered k PNone \<in> set hs' \<or> Waited k (Inr False) \<in> set hs'"
    by auto
  then have "Suc i \<le> k"
    using run_shape_index [OF went_on.hyps(2)] by fastforce
  moreover have "j = i" if "Triggered j v \<in> set hs" for j v
    using step_shape_index [OF went_on.hyps(1) that] by simp
  ultimately show ?case
    using went_on.IH [OF there] by fastforce
qed

lemma trigger_indices_append: "trigger_indices (xs @ ys) = trigger_indices xs @ trigger_indices ys"
  by (induction xs rule: trigger_indices.induct) simp_all

lemma run_shape_success:
  "run_shape n p i m hs r \<Longrightarrow> \<forall>s \<in> set hs. step_ok s
   \<Longrightarrow> r = Inr True \<and> trigger_indices hs = [i..<i + m]"
proof (induction rule: run_shape.induct)
  case (finished i)
  then show ?case by simp
next
  case (stopped i hs r m)
  then show ?case
    by (auto simp: step_shape_def)
next
  case (went_on i hs m hs' r)
  from went_on.hyps(1) have "trigger_indices hs = [i]"
    by (auto simp: step_shape_def)
  moreover from went_on have "r = Inr True \<and> trigger_indices hs' = [Suc i..<Suc i + m]"
    by simp
  ultimately show ?case
    by (simp add: trigger_indices_append upt_conv_Cons)
qed

lemma run_shape_poll:
  "run_shape n p i m hs r \<Longrightarrow> Polled k x \<in> set hs
   \<Longrightarrow> p \<and> k = 0 \<and> 1 < n \<and> i = 0
       \<and> (\<exists>v rest. hs = Triggered 0 v # Waited 0 (Inr True) # Polled 0 x # rest
              \<and> v \<noteq> PNone
              \<and> (\<forall>s \<in> set rest. 1 \<le> step_index s)
              \<and> (x \<noteq> Inr True \<longrightarrow> rest = [] \<and> r = fallout x))"
proof (induction rule: run_shape.induct)
  case (finished i)
  then show ?case by simp
next
  case (stopped i hs r m)
  then show ?case
    by (auto simp: step_shape_def)
next
  case (went_on i hs m hs' r)
  show ?case
  proof (cases "Polled k x \<in> set hs'")
    case True
    from went_on.IH [OF this] show ?thesis by simp
  next
    case False
    with went_on.prems have "Polled k x \<in> set hs" by simp
    with went_on.hyps(1) obtain v where
      "hs = [Triggered 0 v, Waited 0 (Inr True), Polled 0 x]" "v \<noteq> PNone" "x = Inr True"
      "p" "k = 0" "Suc 0 < n" "i = 0"
      by (auto simp: step_shape_def)
    moreover have "\<forall>s \<in> set hs'. 1 \<le> step_index s"
      using run_shape_index [OF went_on.hyps(2)] \<open>i = 0\<close> by auto
    ultimately show ?thesis
      by simp
  qed
qed

lemma run_build_workflow_shape:
  assumes "\<forall>T. \<exists>N. \<forall>tr. N \<le> length tr \<longrightarrow> T \<le> clock E tr"
    and "js = get_jobs_list (config S)"
    and "polling = (enable_polling (config S) = Some True)"
  shows "\<exists>r w' hs. run_build_workflow E S w = Some (r, w') \<and> history w' = history w @ hs
           \<and> (if js = [] then hs = [] \<and> r = Inr False
               else run_shape (length js) polling 0 (length js) hs r)"
proof (cases "js = []")
  case True
  then show ?thesis
    using assms(2)
    by (intro exI [of _ "Inr False"] exI [of _ w] exI [of _ "[]"])
       (simp add: run_build_workflow_def Let_def)
next
  case False
  have p: "(case enable_polling (config S) of None \<Rightarrow> False | Some b \<Rightarrow> b) = polling"
    by (auto simp: assms(3) split: option.splits)
  have "run_build_workflow E S w =
          workflow_loop E S js (case branch (config S) of None \<Rightarrow> ''master'' | Some b \<Rightarrow> b) polling
            (case wait_between_builds (config S) of None \<Rightarrow> 30 | Some n \<Rightarrow> n) 0 js w"
    using False by (simp add: run_build_workflow_def Let_def assms(2) [symmetric] p)
  with workflow_loop_shape [OF assms(1), of S js _ polling _ 0 js w] False
  show ?thesis by auto
qed

lemma posted_jobs_simps:
  "posted_jobs [] = []"
  "posted_jobs (e # evs) = post_job e @ posted_jobs evs"
  "posted_jobs (xs @ ys) = posted_jobs xs @ posted_jobs ys"
  by (simp_all add: posted_jobs_def)

lemma posted_jobs_none:
  "\<forall>e \<in> set evs. post_job e = [] \<Longrightarrow> posted_jobs evs = []"
  by (simp add: posted_jobs_def)

lemma queue_loop_posts:
  "\<exists>evs. snd (queue_loop E u n w) = w\<lparr>trace := trace w @ evs\<rparr> \<and> posted_jobs evs = []"
proof (induction n arbitrary: w)
  case 0
  show ?case by (rule exI [of _ "[]"]) (simp add: posted_jobs_simps)
next
  case (Suc n)
  let ?w1 = "w\<lparr>trace := trace w @ [Req (SessionGet u)]\<rparr>"
  show ?case
  proof (cases "queue_outcome E (trace w) u = Inr Continue")
    case True
    then have step: "queue_loop E u (Suc n) w = queue_loop E u n (time_sleep 2 ?w1)"
      by (auto simp: session_get_def queue_outcome_def split: reply.splits)
    from Suc [of "time_sleep 2 ?w1"] obtain evs where
      evs: "snd (queue_loop E u n (time_sleep 2 ?w1)) = (time_sleep 2 ?w1)\<lparr>trace := trace (time_sleep 2 ?w1) @ evs\<rparr>"
        "posted_jobs evs = []"
      by blast
    show ?thesis
      unfolding step using evs
      by (intro exI [of _ "Req (SessionGet u) # Sleep 2 # evs"])
         (simp add: time_sleep_def posted_jobs_simps)
  next
    case False
    then have "snd (queue_loop E u (Suc n) w) = ?w1"
      by (auto simp: session_get_def queue_outcome_def
               split: reply.splits sum.splits queue_step.splits)
    then show ?thesis
      by (intro exI [of _ "[Req (SessionGet u)]"]) (simp add: posted_jobs_simps)
  qed
qed

lemma poll_loop_posts:
  "\<exists>evs. snd (poll_loop E u m i x a w) = w\<lparr>trace := trace w @ evs\<rparr> \<and> posted_jobs evs = []"
proof (induction "Suc m - a" arbitrary: a w)
  case 0
  show ?case
    using 0 by (subst poll_loop.simps) (auto simp: posted_jobs_simps intro: exI [of _ "[]"])
next
  case (Suc d)
  let ?w1 = "w\<lparr>trace := trace w @ [Req (RequestsGet u)]\<rparr>"
  let ?w = "if a < m then time_sleep i ?w1 else ?w1"
  have a: "a \<le> m" and d: "d = Suc m - Suc a" using Suc.hyps(2) by simp_all
  show ?case
  proof (cases "status_matches E (trace w) u x")
    case True
    then have "poll_loop E u m i x a w = (True, ?w1)"
      using a
      by (subst poll_loop.simps)
         (auto simp: requests_get_def status_matches_def split: reply.splits)
    then show ?thesis
      by (intro exI [of _ "[Req (RequestsGet u)]"]) (simp add: posted_jobs_simps)
  next
    case False
    then have step: "poll_loop E u m i x a w = poll_loop E u m i x (Suc a) ?w"
      using a
      by (subst poll_loop.simps)
         (auto simp: requests_get_def status_matches_def split: reply.splits)
    from Suc.hyps(1) [OF d, of ?w] obtain evs where
      evs: "snd (poll_loop E u m i x (Suc a) ?w) = ?w\<lparr>trace := trace ?w @ evs\<rparr>"
        "posted_jobs evs = []"
      by blast
    show ?thesis
      unfolding step using evs
      by (intro exI [of _ "(if a < m then [Req (RequestsGet u), Sleep i] else [Req (RequestsGet u)]) @ evs"])
         (auto simp: time_sleep_def posted_jobs_simps)
  qed
qed

lemma poll_interface_posts:
  "\<exists>evs. snd (poll_interface E S interface_url w) = w\<lparr>trace := trace w @ evs\<rparr>
         \<and> posted_jobs evs = []"
proof (cases "case interface_url of
              Some y \<Rightarrow> if y \<noteq> [] then Some y else polling_url (config S)
            | None \<Rightarrow> polling_url (config S)")
  case None
  then show ?thesis
    by (intro exI [of _ "[]"]) (simp add: poll_interface_def posted_jobs_simps)
next
  case (Some u)
  from poll_loop_posts
    [of E u "case max_attempts (config S) of None \<Rightarrow> 60 | Some n \<Rightarrow> n"
        "case interval_seconds (config S) of None \<Rightarrow> 30 | Some n \<Rightarrow> n"
        "case expected_status_code (config S) of None \<Rightarrow> 200 | Some c \<Rightarrow> c" 1 w]
  show ?thesis
    using Some by (auto simp: poll_interface_def Let_def split: prod.splits)
qed

lemma wait_for_build_completion_posts:
  assumes "wait_for_build_completion E S job_name build_number w = Some (r, w')"
  shows "\<exists>evs. w' = w\<lparr>trace := trace w @ evs\<rparr> \<and> posted_jobs evs = []"
proof -
  let ?start = "clock E (trace w)"
  let ?w0 = "w\<lparr>trace := trace w @ [Now ?start]\<rparr>"
  from assms have "wait_post E S job_name build_number
               (case timeout_seconds (config S) of None \<Rightarrow> 1800 | Some n \<Rightarrow> n) ?start ?w0 (r, w')"
    unfolding wait_for_build_completion_loop by (rule wait_loop_sound)
  then obtain evs where evs: "snd (r, w') = ?w0\<lparr>trace := trace ?w0 @ evs\<rparr>"
    and reqs: "\<forall>rq. Req rq \<in> set evs \<longrightarrow> rq = SessionGet (status_url S job_name build_number)"
    unfolding wait_post_def by blast
  have "post_job e = []" if "e \<in> set evs" for e
  proof (cases e)
    case (Req rq)
    with reqs that have "rq = SessionGet (status_url S job_name build_number)" by blast
    with Req show ?thesis by simp
  qed simp_all
  then have "posted_jobs (Now ?start # evs) = []"
    by (simp add: posted_jobs_simps posted_jobs_none)
  moreover from evs have "w' = w\<lparr>trace := trace w @ Now ?start # evs\<rparr>"
    by simp
  ultimately show ?thesis by blast
qed

lemma trigger_build_posts:
  "\<exists>evs. snd (trigger_build E S job_name br ps w) = w\<lparr>trace := trace w @ evs\<rparr>
         \<and> (posted_jobs evs = [job_name]
             \<or> posted_jobs evs = [] \<and> fst (trigger_build E S job_name br ps w) = PNone)"
proof (cases "crumb_headers (crumb S)")
  case (Inl e)
  then show ?thesis
    by (intro exI [of _ "[]"])
       (simp add: trigger_build_def trigger_build_body_def posted_jobs_simps)
next
  case (Inr hs)
  let ?p = "trigger_post S job_name br ps hs"
  let ?w1 = "w\<lparr>trace := trace w @ [Req ?p]\<rparr>"
  have post: "post_job (Req ?p) = [job_name]"
    by (simp add: trigger_post_def)
  show ?thesis
  proof (cases "net E (trace w) ?p")
    case (Raised e)
    then have "snd (trigger_build E S job_name br ps w) = ?w1"
      using Inr
      by (simp add: trigger_build_def trigger_build_body_def session_post_def trigger_post_def)
    then show ?thesis
      using post by (intro exI [of _ "[Req ?p]"]) (simp add: posted_jobs_simps)
  next
    case (Answered resp)
    show ?thesis
    proof (cases "status_code resp = 200 \<or> status_code resp = 201")
      case False
      then have "snd (trigger_build E S job_name br ps w) = ?w1"
        using Inr Answered
        by (simp add: trigger_build_def trigger_build_body_def session_post_def trigger_post_def)
      then show ?thesis
        using post by (intro exI [of _ "[Req ?p]"]) (simp add: posted_jobs_simps)
    next
      case True
      have "\<exists>evs. snd (get_build_number_from_queue E S resp job_name ?w1) = ?w1\<lparr>trace := trace ?w1 @ evs\<rparr>
                \<and> posted_jobs evs = []"
      proof (cases "location resp = None \<or> location resp = Some []")
        case True
        then show ?thesis
          by (intro exI [of _ "[]"]) (auto simp: get_build_number_from_queue_def posted_jobs_simps)
      next
        case False
        then obtain loc where "location resp = Some loc" "loc \<noteq> []" by auto
        then show ?thesis
          using queue_loop_posts [of E "location_url S resp" 30 ?w1]
          by (auto simp: get_build_number_from_queue_loop)
      qed
      then obtain evs where
        "snd (get_build_number_from_queue E S resp job_name ?w1) = ?w1\<lparr>trace := trace ?w1 @ evs\<rparr>"
        "posted_jobs evs = []"
        by blast
      then show ?thesis
        using post
        by (intro exI [of _ "Req ?p # evs"])
           (simp add: trigger_build_posted [OF Inr Answered True] Let_def posted_jobs_simps)
    qed
  qed
qed


lemma workflow_step_posts:
  assumes "workflow_step E S js br polling wait_time i j w = Some (fl, w')"
  shows "\<exists>evs. trace w' = trace w @ evs
           \<and> (posted_jobs evs = [name j]
               \<or> posted_jobs evs = [] \<and> history w' = history w @ [Triggered i PNone])"
proof -
  let ?ps = "if parameters j \<noteq> [] then Some (parameters j) else None"
  let ?t = "trigger_build E S (name j) (Some br) ?ps w"
  obtain v w1 where t: "?t = (v, w1)" by (cases ?t)
  from trigger_build_posts [of E S "name j" "Some br" ?ps w] t
  obtain evs1 where w1: "w1 = w\<lparr>trace := trace w @ evs1\<rparr>"
    and p1: "posted_jobs evs1 = [name j] \<or> posted_jobs evs1 = [] \<and> v = PNone"
    by auto
  show ?thesis
  proof (cases "v = PNone")
    case True
    with assms have "w' = remember (Triggered i PNone) w1"
      by (simp add: workflow_step_def t)
    then have "trace w' = trace w @ evs1" "history w' = history w @ [Triggered i PNone]"
      by (simp_all add: w1 history_simps)
    with p1 show ?thesis by blast
  next
    case False
    with p1 have p1: "posted_jobs evs1 = [name j]" by simp
    let ?w2 = "(remember (Triggered i v) w1)\<lparr>current_job := Some (name j), current_build_number := v\<rparr>"
    from assms False obtain x w3 where wt: "wait_for_build_completion E S (name j) v ?w2 = Some (x, w3)"
      by (auto simp: workflow_step_def t split: option.splits)
    from wait_for_build_completion_posts [OF wt] obtain evs2 where
      w3: "w3 = ?w2\<lparr>trace := trace ?w2 @ evs2\<rparr>" and p2: "posted_jobs evs2 = []"
      by blast
    have t3: "trace w3 = trace w @ evs1 @ evs2"
      by (simp add: w3 w1 history_simps)
    let ?w4 = "(remember (Waited i (Inr True)) w3)\<lparr>current_job := None, current_build_number := PNone\<rparr>"
    let ?p = "poll_interface E S None ?w4"
    obtain y w5 where p: "?p = (y, w5)" by (cases ?p)
    from poll_interface_posts [of E S None ?w4] p obtain evs3 where
      w5: "w5 = ?w4\<lparr>trace := trace ?w4 @ evs3\<rparr>" and p3: "posted_jobs evs3 = []"
      by auto
    have t5: "trace w5 = trace w @ evs1 @ evs2 @ evs3"
      by (simp add: w5 t3 history_simps)
    have sleeps: "posted_jobs (replicate n (Sleep 1)) = []" for n
      by (rule posted_jobs_none) simp
    from assms False t wt p
    have "trace w' = trace w3 \<or> trace w' = trace w3 @ replicate wait_time (Sleep 1)
          \<or> trace w' = trace w5 \<or> trace w' = trace w5 @ replicate wait_time (Sleep 1)"
      by (auto simp: workflow_step_def Let_def history_simps countdown_def
               split: sum.splits if_splits)
    then consider "trace w' = trace w @ evs1 @ evs2"
      | "trace w' = trace w @ evs1 @ evs2 @ replicate wait_time (Sleep 1)"
      | "trace w' = trace w @ evs1 @ evs2 @ evs3"
      | "trace w' = trace w @ evs1 @ evs2 @ evs3 @ replicate wait_time (Sleep 1)"
      by (auto simp: t3 t5)
    then show ?thesis
    proof cases
      case 1
      then show ?thesis
        using p1 p2 by (intro exI [of _ "evs1 @ evs2"]) (simp add: posted_jobs_simps)
    next
      case 2
      then show ?thesis
        using p1 p2 sleeps
        by (intro exI [of _ "evs1 @ evs2 @ replicate wait_time (Sleep 1)"])
           (simp add: posted_jobs_simps)
    next
      case 3
      then show ?thesis
        using p1 p2 p3 by (intro exI [of _ "evs1 @ evs2 @ evs3"]) (simp add: posted_jobs_simps)
    next
      case 4
      then show ?thesis
        using p1 p2 p3 sleeps
        by (intro exI [of _ "evs1 @ evs2 @ evs3 @ replicate wait_time (Sleep 1)"])
           (simp add: posted_jobs_simps)
    qed
  qed
qed

lemma step_shape_triggers: "step_shape n p i hs fl \<Longrightarrow> trigger_indices hs = [i]"
  by (auto simp: step_shape_def)

lemma workflow_loop_posts:
  assumes "\<forall>T. \<exists>N. \<forall>tr. N \<le> length tr \<longrightarrow> T \<le> clock E tr"
  shows "\<exists>r w' hs evs p. workflow_loop E S js br polling wait_time i rest w = Some (r, w')
           \<and> history w' = history w @ hs \<and> trace w' = trace w @ evs
           \<and> run_shape (length js) polling i (length rest) hs r
           \<and> posted_jobs evs = map name (take p rest)
           \<and> (length (trigger_indices hs) = p
               \<or> length (trigger_indices hs) = Suc p
                  \<and> (\<exists>k. Triggered k PNone \<in> set hs) \<and> (\<forall>k. Waited k (Inr False) \<notin> set hs))"
proof (induction rest arbitrary: i w)
  case Nil
  show ?case
    by (intro exI [of _ "Inr True"] exI [of _ w] exI [of _ "[]"] exI [of _ 0])
       (simp add: run_shape.finished posted_jobs_simps)
next
  case (Cons j rest)
  from workflow_step_shape [OF assms, of S js br polling wait_time i j w]
  obtain fl w1 hs where step: "workflow_step E S js br polling wait_time i j w = Some (fl, w1)"
    and h1: "history w1 = history w @ hs" and shape: "step_shape (length js) polling i hs fl"
    by blast
  from workflow_step_posts [OF step] obtain evs where t1: "trace w1 = trace w @ evs"
    and p1: "posted_jobs evs = [name j] \<or> posted_jobs evs = [] \<and> hs = [Triggered i PNone]"
    using h1 by auto
  note ti = step_shape_triggers [OF shape]
  show ?case
  proof (cases fl)
    case (Done r)
    then have run: "workflow_loop E S js br polling wait_time i (j # rest) w = Some (r, w1)"
      by (simp add: step)
    have sh: "run_shape (length js) polling i (length (j # rest)) hs r"
      using shape Done by (simp add: run_shape.stopped)
    from p1 show ?thesis
    proof
      assume "posted_jobs evs = [name j]"
      then have "posted_jobs evs = map name (take 1 (j # rest))" by simp
      with run h1 t1 sh ti show ?thesis
        by (intro exI [of _ r] exI [of _ w1] exI [of _ hs] exI [of _ evs] exI [of _ 1]) simp
    next
      assume "posted_jobs evs = [] \<and> hs = [Triggered i PNone]"
      then have "posted_jobs evs = map name (take 0 (j # rest))" "hs = [Triggered i PNone]"
        by simp_all
      with run h1 t1 sh show ?thesis
        by (intro exI [of _ r] exI [of _ w1] exI [of _ hs] exI [of _ evs] exI [of _ 0]) simp
    qed
  next
    case Next
    with shape have quiet: "Triggered k PNone \<notin> set hs" "Waited k (Inr False) \<notin> set hs" for k
      by (auto simp: step_shape_def)
    from shape Next have "hs \<noteq> [Triggered i PNone]"
      by (auto simp: step_shape_def)
    with p1 have p1: "posted_jobs evs = [name j]" by simp
    from Cons [of "Suc i" w1] obtain r w' hs' evs' p where
      loop: "workflow_loop E S js br polling wait_time (Suc i) rest w1 = Some (r, w')"
      and h': "history w' = history w1 @ hs'" and t': "trace w' = trace w1 @ evs'"
      and shape': "run_shape (length js) polling (Suc i) (length rest) hs' r"
      and p': "posted_jobs evs' = map name (take p rest)"
      and c': "length (trigger_indices hs') = p
               \<or> length (trigger_indices hs') = Suc p
                  \<and> (\<exists>k. Triggered k PNone \<in> set hs') \<and> (\<forall>k. Waited k (Inr False) \<notin> set hs')"
      by blast
    have run: "workflow_loop E S js br polling wait_time i (j # rest) w = Some (r, w')"
      by (simp add: step Next loop)
    have h: "history w' = history w @ hs @ hs'"
      by (simp add: h' h1)
    have t: "trace w' = trace w @ evs @ evs'"
      by (simp add: t' t1)
    have sh: "run_shape (length js) polling i (length (j # rest)) (hs @ hs') r"
      using shape shape' Next by (simp add: run_shape.went_on)
    have p: "posted_jobs (evs @ evs') = map name (take (Suc p) (j # rest))"
      by (simp add: posted_jobs_simps p1 p')
    have c: "length (trigger_indices (hs @ hs')) = Suc p
               \<or> length (trigger_indices (hs @ hs')) = Suc (Suc p)
                  \<and> (\<exists>k. Triggered k PNone \<in> set (hs @ hs'))
                  \<and> (\<forall>k. Waited k (Inr False) \<notin> set (hs @ hs'))"
      using c' quiet by (auto simp: trigger_indices_append ti)
    from run h t sh p c show ?thesis
      by (intro exI [of _ r] exI [of _ w'] exI [of _ "hs @ hs'"] exI [of _ "evs @ evs'"]
            exI [of _ "Suc p"]) simp
  qed
qed

lemma trigger_indices_mem:
  "k \<in> set (trigger_indices hs) \<longleftrightarrow> (\<exists>v. Triggered k v \<in> set hs)"
  by (induction hs rule: trigger_indices.induct) auto

lemma run_shape_triggers:
  "run_shape n p i m hs r \<Longrightarrow> trigger_indices hs = [i..<i + length (trigger_indices hs)]"
proof (induction rule: run_shape.induct)
  case (finished i)
  then show ?case by simp
next
  case (stopped i hs r m)
  then show ?case by (simp add: step_shape_triggers)
next
  case (went_on i hs m hs' r)
  let ?t = "length (trigger_indices hs')"
  have "[i..<Suc (i + ?t)] = i # [Suc i..<Suc (i + ?t)]"
    by (rule upt_conv_Cons) simp
  also have "[Suc i..<Suc (i + ?t)] = trigger_indices hs'"
    using went_on.IH by simp
  finally show ?case
    by (simp add: trigger_indices_append step_shape_triggers [OF went_on.hyps(1)] del: upt_Suc)
qed

lemma run_shape_waited:
  "run_shape n p i m hs r \<Longrightarrow> Waited k x \<in> set hs \<Longrightarrow> \<exists>v. Triggered k v \<in> set hs"
proof (induction rule: run_shape.induct)
  case (finished i)
  then show ?case by simp
next
  case (stopped i hs r m)
  then show ?case by (auto simp: step_shape_def)
next
  case (went_on i hs m hs' r)
  then show ?case by (auto simp: step_shape_def)
qed

lemma run_shape_count:
  assumes "run_shape n p 0 m hs r" and "Triggered k v \<in> set hs"
    and "\<forall>j>k. \<forall>v. Triggered j v \<notin> set hs"
  shows "length (trigger_indices hs) = Suc k"
proof -
  let ?t = "length (trigger_indices hs)"
  from run_shape_triggers [OF assms(1)] have ti: "set (trigger_indices hs) = {0..<?t}"
    by (metis add_0 atLeastLessThan_upt)
  from assms(2) have "k \<in> set (trigger_indices hs)"
    by (auto simp: trigger_indices_mem)
  with ti have "k < ?t" by simp
  moreover have "\<not> Suc k < ?t"
  proof
    assume "Suc k < ?t"
    with ti have "Suc k \<in> set (trigger_indices hs)" by simp
    then obtain v where "Triggered (Suc k) v \<in> set hs"
      by (auto simp: trigger_indices_mem)
    with assms(3) show False by auto
  qed
  ultimately show ?thesis by simp
qed

lemma run_build_workflow_posts:
  assumes "\<forall>T. \<exists>N. \<forall>tr. N \<le> length tr \<longrightarrow> T \<le> clock E tr"
    and "js = get_jobs_list (config S)"
    and "polling = (enable_polling (config S) = Some True)"
  shows "\<exists>r w' hs evs p. run_build_workflow E S w = Some (r, w')
           \<and> history w' = history w @ hs \<and> trace w' = trace w @ evs
           \<and> (if js = [] then hs = [] \<and> r = Inr False
               else run_shape (length js) polling 0 (length js) hs r)
           \<and> posted_jobs evs = map name (take p js)
           \<and> (length (trigger_indices hs) = p
               \<or> length (trigger_indices hs) = Suc p
                  \<and> (\<exists>k. Triggered k PNone \<in> set hs) \<and> (\<forall>k. Waited k (Inr False) \<notin> set hs))"
proof (cases "js = []")
  case True
  then show ?thesis
    using assms(2)
    by (intro exI [of _ "Inr False"] exI [of _ w] exI [of _ "[]"] exI [of _ 0])
       (simp add: run_build_workflow_def Let_def posted_jobs_simps)
next
  case False
  have p: "(case enable_polling (config S) of None \<Rightarrow> False | Some b \<Rightarrow> b) = polling"
    by (auto simp: assms(3) split: option.splits)
  have "run_build_workflow E S w =
          workflow_loop E S js (case branch (config S) of None \<Rightarrow> ''master'' | Some b \<Rightarrow> b) polling
            (case wait_between_builds (config S) of None \<Rightarrow> 30 | Some n \<Rightarrow> n) 0 js w"
    using False by (simp add: run_build_workflow_def Let_def assms(2) [symmetric] p)
  with workflow_loop_posts [OF assms(1), of S js _ polling _ 0 js w] False
  show ?thesis by auto
qed

lemma example_clock_unbounded:
  "\<forall>T. \<exists>N. \<forall>tr. N \<le> length tr \<longrightarrow> T \<le> clock (example_env rs d) tr"
proof
  fix T :: rat
  obtain N :: nat where N: "T \<le> of_nat N"
    using real_arch_simple by blast
  have "\<forall>tr. N \<le> length tr \<longrightarrow> T \<le> clock (example_env rs d) tr"
  proof (intro allI impI)
    fix tr :: "event list"
    assume "N \<le> length tr"
    then have "(of_nat N :: rat) \<le> of_nat (length tr)" by simp
    with N show "T \<le> clock (example_env rs d) tr"
      by (simp add: example_clock)
  qed
  then show "\<exists>N. \<forall>tr. N \<le> length tr \<longrightarrow> T \<le> clock (example_env rs d) tr" ..
qed

text \<open>The definitions that evaluate a run in one of the example environments.\<close>

lemmas eval_defs =
  run_build_workflow_def get_jobs_list_def workflow_step_def trigger_build_def
  trigger_build_body_def crumb_headers_def session_post_def get_build_number_from_queue_def
  session_get_def queue_decide_def response_json_def py_get_def time_sleep_def
  wait_for_build_completion_loop wait_loop_continue wait_loop_return wait_iteration_eq
  example_net example_clock status_url_def remember_def countdown_def poll_interface_def
  requests_get_def trigger_post_def build_params_def branch_or_default_def
  queue_url_def startswith_def rstrip_slash_def verdict_def status_of_reply_def
  malformed_def terminal_def succeeded_def is_object_def snapshot_field_def
  example_self_def polling_self_def example_config_def world0_def queued_response_def
  running_reply_def ok_json_def status_only_def finished_snapshot_def Let_def

lemma poll_fails_eval:
  "run_build_workflow env_poll_fails polling_self world0 =
     Some (Inr False,
       \<lparr>trace = [Req (trigger_post polling_self ''a'' (Some ''master'') None []),
                 Req (SessionGet example_queue_url),
                 Now 2, Now 3, Req (SessionGet example_build_url),
                 Req (RequestsGet ''http://svc/ready''), Sleep 1,
                 Req (RequestsGet ''http://svc/ready''), Sleep 1,
                 Req (RequestsGet ''http://svc/ready'')],
        current_job = None, current_build_number = PNone,
        history = [Triggered 0 (PInt 42), Waited 0 (Inr True), Polled 0 (Inr False)]\<rparr>)"
  by (simp add: eval_defs env_poll_fails_def example_queue_url_def example_build_url_def
        eval_nat_numeral poll_loop.simps)

lemma poll_passes_eval:
  "run_build_workflow env_poll_passes polling_self world0 =
     Some (Inr True,
       \<lparr>trace = [Req (trigger_post polling_self ''a'' (Some ''master'') None []),
                 Req (SessionGet example_queue_url),
                 Now 2, Now 3, Req (SessionGet example_build_url),
                 Req (RequestsGet ''http://svc/ready''),
                 Req (trigger_post polling_self ''b'' (Some ''master'') None []),
                 Req (SessionGet example_queue_url),
                 Now 8, Now 9, Req (SessionGet (JobBuildApi ''http://ci'' ''b'' (PInt 43)))],
        current_job = None, current_build_number = PNone,
        history = [Triggered 0 (PInt 42), Waited 0 (Inr True), Polled 0 (Inr True),
                   Triggered 1 (PInt 43), Waited 1 (Inr True)]\<rparr>)"
  by (simp add: eval_defs env_poll_passes_def example_queue_url_def example_build_url_def
        eval_nat_numeral poll_loop.simps)

lemma two_jobs_eval:
  "run_build_workflow env_two_jobs example_self world0 =
     Some (Inr True,
       \<lparr>trace = [Req (trigger_post example_self ''a'' (Some ''master'') None []),
                 Req (SessionGet example_queue_url),
                 Now 2, Now 3, Req (SessionGet example_build_url),
                 Req (trigger_post example_self ''b'' (Some ''master'') None []),
                 Req (SessionGet example_queue_url),
                 Now 7, Now 8, Req (SessionGet (JobBuildApi ''http://ci'' ''b'' (PInt 43)))],
        current_job = None, current_build_number = PNone,
        history = [Triggered 0 (PInt 42), Waited 0 (Inr True),
                   Triggered 1 (PInt 43), Waited 1 (Inr True)]\<rparr>)"
  by (simp add: eval_defs env_two_jobs_def example_queue_url_def example_build_url_def
        eval_nat_numeral)

lemma trigger_fails_eval:
  "run_build_workflow (example_env [] (status_only 500)) example_self world0 =
     Some (Inr False,
       \<lparr>trace = [Req (trigger_post example_self ''a'' (Some ''master'') None [])],
        current_job = None, current_build_number = PNone,
        history = [Triggered 0 PNone]\<rparr>)"
  by (simp add: eval_defs)

lemma second_fails_eval:
  "run_build_workflow env_second_fails example_self world0 =
     Some (Inr False,
       \<lparr>trace = [Req (trigger_post example_self ''a'' (Some ''master'') None []),
                 Req (SessionGet example_queue_url),
                 Now 2, Now 3, Req (SessionGet example_build_url),
                 Req (trigger_post example_self ''b'' (Some ''master'') None []),
                 Req (SessionGet example_queue_url),
                 Now 7, Now 8, Req (SessionGet (JobBuildApi ''http://ci'' ''b'' (PInt 43)))],
        current_job = Some ''b'', current_build_number = PInt 43,
        history = [Triggered 0 (PInt 42), Waited 0 (Inr True),
                   Triggered 1 (PInt 43), Waited 1 (Inr False)]\<rparr>)"
  by (simp add: eval_defs env_second_fails_def example_queue_url_def example_build_url_def
        eval_nat_numeral)

text \<open>
  Claim C1 does not hold of the code. Job \<^verbatim>\<open>a\<close> is triggered, gets build number 42, and its
  build ends with result \<^verbatim>\<open>FAILURE\<close>: \<^verbatim>\<open>wait_for_build_completion\<close> returns False and
  \<^verbatim>\<open>run_build_workflow\<close> returns False (line 587) with \<^verbatim>\<open>current_job\<close> and
  \<^verbatim>\<open>current_build_number\<close> still set to \<^verbatim>\<open>a\<close> and 42: the two assignments that clear the
  handle (lines 590-591) come after the \<^verbatim>\<open>return\<close>.
\<close>

theorem handle_kept_after_failed_build:
  "run_build_workflow env_job_fails example_self world0 =
     Some (Inr False,
       \<lparr>trace = [Req (trigger_post example_self ''a'' (Some ''master'') None []),
                 Req (SessionGet example_queue_url),
                 Now 2, Now 3, Req (SessionGet example_build_url)],
        current_job = Some ''a'', current_build_number = PInt 42,
        history = [Triggered 0 (PInt 42), Waited 0 (Inr False)]\<rparr>)"
  by (simp add: eval_defs env_job_fails_def example_queue_url_def example_build_url_def
        eval_nat_numeral)

text \<open>
  Claim C2, amended. Let the clock grow without bound as the history grows, so that every
  completion wait ends. Then \<^verbatim>\<open>run_build_workflow\<close> returns. Let \<open>hs\<close> be the history of its
  calls and \<open>evs\<close> the requests and sleeps it made, and number the jobs of the list \<open>js\<close>
  from 0. If the trigger of job \<open>k\<close> returned None, the workflow returns False, no job
  with a greater index was triggered, and the builds requested are those of the jobs
  \<open>0, ..., k\<close> in list order, or of \<open>0, ..., k - 1\<close> when the trigger of job \<open>k\<close> failed before
  its POST. If the completion wait of job \<open>k\<close> returned False, the workflow returns False,
  no job with a greater index was triggered, and the builds requested are those of the
  jobs \<open>0, ..., k\<close> in list order. If there is at least one job and every call recorded
  succeeded (every trigger returned a build number, every completion wait returned True,
  and the external poll, where it was made, returned True), the workflow returns True
  and the builds requested are those of all the jobs of \<open>js\<close>, each once, in list order.
\<close>

theorem run_build_workflow_sequence:
  assumes "\<forall>T. \<exists>N. \<forall>tr. N \<le> length tr \<longrightarrow> T \<le> clock E tr"
    and "js = get_jobs_list (config S)"
  shows "\<exists>r w' hs evs. run_build_workflow E S w = Some (r, w')
           \<and> history w' = history w @ hs \<and> trace w' = trace w @ evs
           \<and> (\<forall>k. Triggered k PNone \<in> set hs
                  \<longrightarrow> r = Inr False \<and> (\<forall>j>k. \<forall>v. Triggered j v \<notin> set hs)
                      \<and> (posted_jobs evs = map name (take (Suc k) js)
                          \<or> posted_jobs evs = map name (take k js)))
           \<and> (\<forall>k. Waited k (Inr False) \<in> set hs
                  \<longrightarrow> r = Inr False \<and> (\<forall>j>k. \<forall>v. Triggered j v \<notin> set hs)
                      \<and> posted_jobs evs = map name (take (Suc k) js))
           \<and> (js \<noteq> [] \<and> (\<forall>s \<in> set hs. step_ok s)
                  \<longrightarrow> r = Inr True \<and> trigger_indices hs = [0..<length js]
                      \<and> posted_jobs evs = map name js)"
proof -
  let ?polling = "enable_polling (config S) = Some True"
  from run_build_workflow_posts [OF assms refl, of w] obtain r w' hs evs p where
    run: "run_build_workflow E S w = Some (r, w')" and h: "history w' = history w @ hs"
    and t: "trace w' = trace w @ evs"
    and shape: "if js = [] then hs = [] \<and> r = Inr False
                else run_shape (length js) ?polling 0 (length js) hs r"
    and posts: "posted_jobs evs = map name (take p js)"
    and count: "length (trigger_indices hs) = p
                \<or> length (trigger_indices hs) = Suc p
                   \<and> (\<exists>k. Triggered k PNone \<in> set hs) \<and> (\<forall>k. Waited k (Inr False) \<notin> set hs)"
    by blast
  have shape': "run_shape (length js) ?polling 0 (length js) hs r" if "hs \<noteq> []"
    using shape that by (cases "js = []") simp_all
  have a: "r = Inr False \<and> (\<forall>j>k. \<forall>v. Triggered j v \<notin> set hs)
           \<and> (posted_jobs evs = map name (take (Suc k) js)
               \<or> posted_jobs evs = map name (take k js))"
    if "Triggered k PNone \<in> set hs" for k
  proof -
    from that have sh: "run_shape (length js) ?polling 0 (length js) hs r"
      by (intro shape') auto
    from run_shape_failure [OF sh, of k] that
    have f: "r = Inr False \<and> (\<forall>j>k. \<forall>v. Triggered j v \<notin> set hs)" by simp
    then have "length (trigger_indices hs) = Suc k"
      using run_shape_count [OF sh that] by simp
    with count have "p = Suc k \<or> p = k" by auto
    with posts f show ?thesis by auto
  qed
  have b: "r = Inr False \<and> (\<forall>j>k. \<forall>v. Triggered j v \<notin> set hs)
           \<and> posted_jobs evs = map name (take (Suc k) js)"
    if "Waited k (Inr False) \<in> set hs" for k
  proof -
    from that have sh: "run_shape (length js) ?polling 0 (length js) hs r"
      by (intro shape') auto
    from run_shape_failure [OF sh, of k] that
    have f: "r = Inr False \<and> (\<forall>j>k. \<forall>v. Triggered j v \<notin> set hs)" by simp
    from run_shape_waited [OF sh that] obtain v where "Triggered k v \<in> set hs" ..
    then have "length (trigger_indices hs) = Suc k"
      using run_shape_count [OF sh] f by simp
    with count that have "p = Suc k" by auto
    with posts f show ?thesis by simp
  qed
  have c: "r = Inr True \<and> trigger_indices hs = [0..<length js] \<and> posted_jobs evs = map name js"
    if "js \<noteq> []" "\<forall>s \<in> set hs. step_ok s"
  proof -
    from shape that(1)
    have "run_shape (length js) ?polling 0 (length js) hs r"
      by simp
    from run_shape_success [OF this that(2)]
    have s: "r = Inr True" "trigger_indices hs = [0..<length js]" by simp_all
    from that(2) have "Triggered k PNone \<notin> set hs" for k
      by fastforce
    with count s(2) have "p = length js" by simp
    with posts s show ?thesis by simp
  qed
  show ?thesis
    using run h t a b c by blast
qed

theorem run_build_workflow_sequence_witness:
  "run_build_workflow env_two_jobs example_self world0 =
     Some (Inr True,
       \<lparr>trace = [Req (trigger_post example_self ''a'' (Some ''master'') None []),
                 Req (SessionGet example_queue_url),
                 Now 2, Now 3, Req (SessionGet example_build_url),
                 Req (trigger_post example_self ''b'' (Some ''master'') None []),
                 Req (SessionGet example_queue_url),
                 Now 7, Now 8, Req (SessionGet (JobBuildApi ''http://ci'' ''b'' (PInt 43)))],
        current_job = None, current_build_number = PNone,
        history = [Triggered 0 (PInt 42), Waited 0 (Inr True),
                   Triggered 1 (PInt 43), Waited 1 (Inr True)]\<rparr>)
   \<and> posted_jobs [Req (trigger_post example_self ''a'' (Some ''master'') None []),
                   Req (SessionGet example_queue_url),
                   Now 2, Now 3, Req (SessionGet example_build_url),
                   Req (trigger_post example_self ''b'' (Some ''master'') None []),
                   Req (SessionGet example_queue_url),
                   Now 7, Now 8, Req (SessionGet (JobBuildApi ''http://ci'' ''b'' (PInt 43)))] =
       map name (get_jobs_list (config example_self))
   \<and> map name (get_jobs_list (config example_self)) = [''a'', ''b'']
   \<and> run_build_workflow (example_env [] (status_only 500)) example_self world0 =
     Some (Inr False,
       \<lparr>trace = [Req (trigger_post example_self ''a'' (Some ''master'') None [])],
        current_job = None, current_build_number = PNone,
        history = [Triggered 0 PNone]\<rparr>)
   \<and> posted_jobs [Req (trigger_post example_self ''a'' (Some ''master'') None [])] = [''a'']
   \<and> run_build_workflow env_second_fails example_self world0 =
     Some (Inr False,
       \<lparr>trace = [Req (trigger_post example_self ''a'' (Some ''master'') None []),
                 Req (SessionGet example_queue_url),
                 Now 2, Now 3, Req (SessionGet example_build_url),
                 Req (trigger_post example_self ''b'' (Some ''master'') None []),
                 Req (SessionGet example_queue_url),
                 Now 7, Now 8, Req (SessionGet (JobBuildApi ''http://ci'' ''b'' (PInt 43)))],
        current_job = Some ''b'', current_build_number = PInt 43,
        history = [Triggered 0 (PInt 42), Waited 0 (Inr True),
                   Triggered 1 (PInt 43), Waited 1 (Inr False)]\<rparr>)"
proof -
  have fresh: "history world0 = []" "trace world0 = []" by (simp_all add: world0_def)
  let ?js = "get_jobs_list (config example_self)"
  let ?evs = "[Req (trigger_post example_self ''a'' (Some ''master'') None []),
               Req (SessionGet example_queue_url),
               Now 2, Now 3, Req (SessionGet example_build_url),
               Req (trigger_post example_self ''b'' (Some ''master'') None []),
               Req (SessionGet example_queue_url),
               Now 7, Now 8, Req (SessionGet (JobBuildApi ''http://ci'' ''b'' (PInt 43)))]"
  have js: "map name ?js = [''a'', ''b'']"
    by (simp add: get_jobs_list_def example_self_def example_config_def)
  then have some: "?js \<noteq> []" by auto
  have all: "posted_jobs ?evs = map name ?js"
  proof -
    have clock: "\<forall>T. \<exists>N. \<forall>tr. N \<le> length tr \<longrightarrow> T \<le> clock env_two_jobs tr"
      unfolding env_two_jobs_def by (rule example_clock_unbounded)
    from run_build_workflow_sequence [OF clock refl, of example_self world0]
    obtain r w' hs evs where
      run: "run_build_workflow env_two_jobs example_self world0 = Some (r, w')"
      and h: "history w' = history world0 @ hs" and t: "trace w' = trace world0 @ evs"
      and ok: "?js \<noteq> [] \<and> (\<forall>s \<in> set hs. step_ok s)
                 \<longrightarrow> r = Inr True \<and> trigger_indices hs = [0..<length ?js]
                     \<and> posted_jobs evs = map name ?js"
      by (elim exE conjE) (rule that)
    from run [symmetric] have "history w' = [Triggered 0 (PInt 42), Waited 0 (Inr True),
                                 Triggered 1 (PInt 43), Waited 1 (Inr True)]"
      and "trace w' = ?evs"
      by (simp_all add: two_jobs_eval)
    with h t have "hs = [Triggered 0 (PInt 42), Waited 0 (Inr True),
                         Triggered 1 (PInt 43), Waited 1 (Inr True)]" "evs = ?evs"
      by (simp_all add: fresh)
    with ok some show ?thesis
      by simp
  qed
  have first: "posted_jobs [Req (trigger_post example_self ''a'' (Some ''master'') None [])] = [''a'']"
  proof -
    from run_build_workflow_sequence
           [OF example_clock_unbounded [of "[]" "status_only 500"] refl, of example_self world0]
    obtain r w' hs evs where
      run: "run_build_workflow (example_env [] (status_only 500)) example_self world0 = Some (r, w')"
      and h: "history w' = history world0 @ hs" and t: "trace w' = trace world0 @ evs"
      and stop: "\<forall>k. Triggered k PNone \<in> set hs
                   \<longrightarrow> r = Inr False \<and> (\<forall>j>k. \<forall>v. Triggered j v \<notin> set hs)
                       \<and> (posted_jobs evs = map name (take (Suc k) ?js)
                           \<or> posted_jobs evs = map name (take k ?js))"
      and fail: "\<forall>k. Waited k (Inr False) \<in> set hs
                   \<longrightarrow> r = Inr False \<and> (\<forall>j>k. \<forall>v. Triggered j v \<notin> set hs)
                       \<and> posted_jobs evs = map name (take (Suc k) ?js)"
      and ok: "?js \<noteq> [] \<and> (\<forall>s \<in> set hs. step_ok s)
                 \<longrightarrow> r = Inr True \<and> trigger_indices hs = [0..<length ?js]
                     \<and> posted_jobs evs = map name ?js"
      by (elim exE conjE) (rule that)
    from run [symmetric] have "history w' = [Triggered 0 PNone]"
      and "trace w' = [Req (trigger_post example_self ''a'' (Some ''master'') None [])]"
      by (simp_all add: trigger_fails_eval)
    with h t have hs: "hs = [Triggered 0 PNone]"
      and evs: "evs = [Req (trigger_post example_self ''a'' (Some ''master'') None [])]"
      by (simp_all add: fresh)
    from stop hs have "posted_jobs evs = map name (take (Suc 0) ?js)
                       \<or> posted_jobs evs = map name (take 0 ?js)"
      by simp
    then have "posted_jobs evs = take (Suc 0) (map name ?js) \<or> posted_jobs evs = []"
      by (simp add: take_map)
    then have "posted_jobs evs = [''a''] \<or> posted_jobs evs = []"
      by (simp add: js)
    moreover have "posted_jobs evs \<noteq> []"
      by (simp add: evs posted_jobs_def trigger_post_def)
    ultimately show ?thesis
      by (simp add: evs)
  qed
  have second: "\<exists>w. run_build_workflow env_second_fails example_self world0 = Some (Inr False, w)"
  proof -
    have clock: "\<forall>T. \<exists>N. \<forall>tr. N \<le> length tr \<longrightarrow> T \<le> clock env_second_fails tr"
      unfolding env_second_fails_def by (rule example_clock_unbounded)
    from run_build_workflow_sequence [OF clock refl, of example_self world0]
    obtain r w' hs evs where
      run: "run_build_workflow env_second_fails example_self world0 = Some (r, w')"
      and h: "history w' = history world0 @ hs" and t: "trace w' = trace world0 @ evs"
      and stop: "\<forall>k. Triggered k PNone \<in> set hs
                   \<longrightarrow> r = Inr False \<and> (\<forall>j>k. \<forall>v. Triggered j v \<notin> set hs)
                       \<and> (posted_jobs evs = map name (take (Suc k) ?js)
                           \<or> posted_jobs evs = map name (take k ?js))"
      and fail: "\<forall>k. Waited k (Inr False) \<in> set hs
                   \<longrightarrow> r = Inr False \<and> (\<forall>j>k. \<forall>v. Triggered j v \<notin> set hs)
                       \<and> posted_jobs evs = map name (take (Suc k) ?js)"
      and ok: "?js \<noteq> [] \<and> (\<forall>s \<in> set hs. step_ok s)
                 \<longrightarrow> r = Inr True \<and> trigger_indices hs = [0..<length ?js]
                     \<and> posted_jobs evs = map name ?js"
      by (elim exE conjE) (rule that)
    from run [symmetric] have "history w' = [Triggered 0 (PInt 42), Waited 0 (Inr True),
                                 Triggered 1 (PInt 43), Waited 1 (Inr False)]"
      by (simp add: second_fails_eval)
    with h have "hs = [Triggered 0 (PInt 42), Waited 0 (Inr True),
                       Triggered 1 (PInt 43), Waited 1 (Inr False)]"
      by (simp add: fresh)
    then have "Waited 1 (Inr False) \<in> set hs"
      by simp
    with fail have "r = Inr False" by blast
    with run show ?thesis by simp
  qed
  show ?thesis
    using two_jobs_eval all js trigger_fails_eval first second second_fails_eval by simp
qed

text \<open>
  Claim C2 as stated fails when the external poll fails: with polling enabled and the jobs
  \<^verbatim>\<open>a\<close> and \<^verbatim>\<open>b\<close>, the trigger and the completion wait of \<^verbatim>\<open>a\<close> succeed, no trigger and no
  completion wait fails, and yet the workflow returns False without triggering \<^verbatim>\<open>b\<close>,
  because the endpoint answered 500 three times.
\<close>

theorem workflow_poll_failure_counterexample:
  "run_build_workflow env_poll_fails polling_self world0 =
     Some (Inr False,
       \<lparr>trace = [Req (trigger_post polling_self ''a'' (Some ''master'') None []),
                 Req (SessionGet example_queue_url),
                 Now 2, Now 3, Req (SessionGet example_build_url),
                 Req (RequestsGet ''http://svc/ready''), Sleep 1,
                 Req (RequestsGet ''http://svc/ready''), Sleep 1,
                 Req (RequestsGet ''http://svc/ready'')],
        current_job = None, current_build_number = PNone,
        history = [Triggered 0 (PInt 42), Waited 0 (Inr True), Polled 0 (Inr False)]\<rparr>)
   \<and> map name (get_jobs_list (config polling_self)) = [''a'', ''b'']"
  by (simp add: poll_fails_eval) (simp add: get_jobs_list_def polling_self_def example_config_def)

text \<open>
  Claim C7. Let the clock grow without bound as the history grows. Then
  \<^verbatim>\<open>run_build_workflow\<close> returns, and if its history records a call of \<^verbatim>\<open>poll_interface\<close>, then
  polling is enabled in the configuration, there are at least two jobs, and the call is
  the third entry of the history, after the trigger and the successful completion wait
  of job 0 and before every entry of a later job; if the call returned False it is the
  last entry (no further job is triggered) and the workflow returns False.
\<close>

theorem poll_interface_only_after_first_job:
  assumes "\<forall>T. \<exists>N. \<forall>tr. N \<le> length tr \<longrightarrow> T \<le> clock E tr"
  shows "\<exists>r w' hs. run_build_workflow E S w = Some (r, w') \<and> history w' = history w @ hs
           \<and> (\<forall>k x. Polled k x \<in> set hs
                  \<longrightarrow> enable_polling (config S) = Some True \<and> k = 0
                      \<and> 1 < length (get_jobs_list (config S))
                      \<and> (\<exists>v rest. hs = Triggered 0 v # Waited 0 (Inr True) # Polled 0 x # rest
                             \<and> v \<noteq> PNone
                             \<and> (\<forall>s \<in> set rest. 1 \<le> step_index s)
                             \<and> (x = Inr False \<longrightarrow> rest = [] \<and> r = Inr False)))"
proof -
  let ?js = "get_jobs_list (config S)"
  let ?p = "enable_polling (config S) = Some True"
  from run_build_workflow_shape [OF assms refl refl, of S w] obtain r w' hs where
    run: "run_build_workflow E S w = Some (r, w')" and h: "history w' = history w @ hs"
    and shape: "if ?js = [] then hs = [] \<and> r = Inr False
                else run_shape (length ?js) ?p 0 (length ?js) hs r"
    by blast
  have c: "?p \<and> k = 0 \<and> 1 < length ?js
           \<and> (\<exists>v rest. hs = Triggered 0 v # Waited 0 (Inr True) # Polled 0 x # rest
                  \<and> v \<noteq> PNone
                  \<and> (\<forall>s \<in> set rest. 1 \<le> step_index s)
                  \<and> (x = Inr False \<longrightarrow> rest = [] \<and> r = Inr False))"
    if "Polled k x \<in> set hs" for k x
  proof (cases "?js = []")
    case True
    with shape that show ?thesis by simp
  next
    case False
    with shape have "run_shape (length ?js) ?p 0 (length ?js) hs r"
      by simp
    from run_shape_poll [OF this that] show ?thesis
      by (auto simp: fallout_def)
  qed
  show ?thesis
    using run h c by blast
qed

theorem poll_interface_only_after_first_job_witness:
  "run_build_workflow env_poll_passes polling_self world0 =
     Some (Inr True,
       \<lparr>trace = [Req (trigger_post polling_self ''a'' (Some ''master'') None []),
                 Req (SessionGet example_queue_url),
                 Now 2, Now 3, Req (SessionGet example_build_url),
                 Req (RequestsGet ''http://svc/ready''),
                 Req (trigger_post polling_self ''b'' (Some ''master'') None []),
                 Req (SessionGet example_queue_url),
                 Now 8, Now 9, Req (SessionGet (JobBuildApi ''http://ci'' ''b'' (PInt 43)))],
        current_job = None, current_build_number = PNone,
        history = [Triggered 0 (PInt 42), Waited 0 (Inr True), Polled 0 (Inr True),
                   Triggered 1 (PInt 43), Waited 1 (Inr True)]\<rparr>)
   \<and> enable_polling (config polling_self) = Some True
   \<and> 1 < length (get_jobs_list (config polling_self))
   \<and> (\<exists>w. run_build_workflow env_poll_fails polling_self world0 = Some (Inr False, w)
            \<and> history w = [Triggered 0 (PInt 42), Waited 0 (Inr True), Polled 0 (Inr False)])"
proof -
  have fresh: "history world0 = []" by (simp add: world0_def)
  have clock: "\<forall>T. \<exists>N. \<forall>tr. N \<le> length tr \<longrightarrow> T \<le> clock env_poll_passes tr"
    unfolding env_poll_passes_def by (rule example_clock_unbounded)
  have clock': "\<forall>T. \<exists>N. \<forall>tr. N \<le> length tr \<longrightarrow> T \<le> clock env_poll_fails tr"
    unfolding env_poll_fails_def by (rule example_clock_unbounded)
  from poll_interface_only_after_first_job [OF clock, of polling_self world0]
  obtain r w' hs where
    run: "run_build_workflow env_poll_passes polling_self world0 = Some (r, w')"
    and h: "history w' = history world0 @ hs"
    and polled: "\<forall>k x. Polled k x \<in> set hs
                  \<longrightarrow> enable_polling (config polling_self) = Some True \<and> k = 0
                      \<and> 1 < length (get_jobs_list (config polling_self))
                      \<and> (\<exists>v rest. hs = Triggered 0 v # Waited 0 (Inr True) # Polled 0 x # rest
                             \<and> v \<noteq> PNone
                             \<and> (\<forall>s \<in> set rest. 1 \<le> step_index s)
                             \<and> (x = Inr False \<longrightarrow> rest = [] \<and> r = Inr False))"
    by blast
  from run h have "Polled 0 (Inr True) \<in> set hs"
    by (auto simp: poll_passes_eval fresh)
  with polled have enabled: "enable_polling (config polling_self) = Some True"
    and next_job: "1 < length (get_jobs_list (config polling_self))"
    by blast+
  from poll_interface_only_after_first_job [OF clock', of polling_self world0]
  obtain r' w'' hs' where
    run': "run_build_workflow env_poll_fails polling_self world0 = Some (r', w'')"
    and h': "history w'' = history world0 @ hs'"
    and polled': "\<forall>k x. Polled k x \<in> set hs'
                  \<longrightarrow> enable_polling (config polling_self) = Some True \<and> k = 0
                      \<and> 1 < length (get_jobs_list (config polling_self))
                      \<and> (\<exists>v rest. hs' = Triggered 0 v # Waited 0 (Inr True) # Polled 0 x # rest
                             \<and> v \<noteq> PNone
                             \<and> (\<forall>s \<in> set rest. 1 \<le> step_index s)
                             \<and> (x = Inr False \<longrightarrow> rest = [] \<and> r' = Inr False))"
    by blast
  from run' h' have hs': "hs' = [Triggered 0 (PInt 42), Waited 0 (Inr True), Polled 0 (Inr False)]"
    by (auto simp: poll_fails_eval fresh)
  then have "Polled 0 (Inr False) \<in> set hs'" by simp
  with polled' have "r' = Inr False" by blast
  with run' h' hs' have aborted:
    "\<exists>w. run_build_workflow env_poll_fails polling_self world0 = Some (Inr False, w)
        \<and> history w = [Triggered 0 (PInt 42), Waited 0 (Inr True), Polled 0 (Inr False)]"
    by (simp add: fresh)
  show ?thesis
    using poll_passes_eval enabled next_job aborted by simp
qed

end
